theory Spec2Isabelle
  imports Complex_Main
begin

section \<open>Functions-Solver: lexer, parser, evaluator, symbolic conversion and sampler\<close>

text \<open>
  A shallow embedding of the expression pipeline of the repository:
  \<^verbatim>\<open>calc/token/token.py\<close>, \<^verbatim>\<open>calc/lexer/lexer.py\<close>, \<^verbatim>\<open>calc/ast/ast.py\<close>,
  \<^verbatim>\<open>calc/parser/parser.py\<close>, \<^verbatim>\<open>calc/evaluator/evaluator.py\<close> and \<^verbatim>\<open>utils/helpers.py\<close>.
  Exceptions are values of the type \<open>error\<close>; a function that may raise returns
  \<open>error + 'a\<close> with \<open>Inl\<close> for the exception. The instance fields the Python
  classes mutate (\<^verbatim>\<open>curPosition\<close>, \<^verbatim>\<open>curToken\<close>, \<^verbatim>\<open>tokens\<close>) are passed and
  returned explicitly.
\<close>

subsection \<open>Python numbers\<close>

text \<open>
  The values of the evaluator are Python's \<^verbatim>\<open>int | float\<close>; \<^verbatim>\<open>**\<close> on a negative
  float base with a non-integral exponent yields a Python \<^verbatim>\<open>complex\<close>, so that is
  a third kind of value. A float is modelled by the real number it stands for:
  rounding, overflow, infinities and NaN of IEEE arithmetic are outside the model.
\<close>

datatype number = PyInt int | PyFloat real | PyComplex complex

fun is_complex :: "number \<Rightarrow> bool" where
  "is_complex (PyComplex z) = True"
| "is_complex (PyInt i) = False"
| "is_complex (PyFloat r) = False"

fun is_int :: "number \<Rightarrow> bool" where
  "is_int (PyInt i) = True"
| "is_int (PyFloat r) = False"
| "is_int (PyComplex z) = False"

text \<open>The coercions of mixed arithmetic. \<open>to_float\<close> is only applied to an int or a float.\<close>

fun to_float :: "number \<Rightarrow> real" where
  "to_float (PyInt i) = of_int i"
| "to_float (PyFloat r) = r"
| "to_float (PyComplex z) = Re z"

fun to_complex :: "number \<Rightarrow> complex" where
  "to_complex (PyInt i) = of_int i"
| "to_complex (PyFloat r) = of_real r"
| "to_complex (PyComplex z) = z"

text \<open>The token kinds of \<^verbatim>\<open>token.py\<close> (\<^verbatim>\<open>TokenType\<close>) and the values a token carries.\<close>

datatype TokenType = T_number | T_variable | T_minus | T_plus | T_slash | T_asterisk
  | T_dot | T_exponent | T_lparen | T_rparen | T_function

datatype tokval = VStr string | VNum number

datatype error =
    LexerError string nat
  | ParserError string
  | ParserError_f string tokval
  | EvaluatorError string
  | UnknownFunctionError string
  | TypeError string
  | KeyError TokenType
  | ZeroDivisionError string
  | ValueError string

text \<open>
  \<open>LexerError message position\<close>, \<open>ParserError message\<close> and
  \<open>UnknownFunctionError name\<close> are the classes of \<^verbatim>\<open>LexerError.py\<close>, \<^verbatim>\<open>ParserError.py\<close>
  and \<^verbatim>\<open>UnknownFunctionError.py\<close>, each a direct subclass of \<^verbatim>\<open>Exception\<close>.
  \<open>ParserError_f prefix v\<close> is a \<^verbatim>\<open>ParserError\<close> whose message is the f-string
  \<^verbatim>\<open>f"{prefix}{v}"\<close>, kept unformatted. The other constructors are Python's built-in
  exceptions.

  Modelled from the spec: \<^verbatim>\<open>calc/evaluator/EvaluatorError.py\<close> is not among the sources.
  The spec lists the messages \<^verbatim>\<open>EvaluatorError: Division by zero\<close> and so on, and the
  tests expect them, so \<open>EvaluatorError message\<close> is an exception class of its own
  like \<^verbatim>\<open>ParserError\<close>, unrelated to \<^verbatim>\<open>UnknownFunctionError\<close>.
\<close>

type_synonym 'a result = "error + 'a"

definition py_binop ::
  "(int \<Rightarrow> int \<Rightarrow> int) \<Rightarrow> (real \<Rightarrow> real \<Rightarrow> real) \<Rightarrow> (complex \<Rightarrow> complex \<Rightarrow> complex)
    \<Rightarrow> number \<Rightarrow> number \<Rightarrow> number" where
  "py_binop fi fr fc a b =
     (if is_complex a \<or> is_complex b then PyComplex (fc (to_complex a) (to_complex b))
      else if is_int a \<and> is_int b then PyInt (fi (\<lfloor>to_float a\<rfloor>) (\<lfloor>to_float b\<rfloor>))
      else PyFloat (fr (to_float a) (to_float b)))"

definition py_add :: "number \<Rightarrow> number \<Rightarrow> number" where
  "py_add = py_binop (+) (+) (+)"

definition py_sub :: "number \<Rightarrow> number \<Rightarrow> number" where
  "py_sub = py_binop (-) (-) (-)"

definition py_mul :: "number \<Rightarrow> number \<Rightarrow> number" where
  "py_mul = py_binop (*) (*) (*)"

fun py_neg :: "number \<Rightarrow> number" where
  "py_neg (PyInt i) = PyInt (- i)"
| "py_neg (PyFloat r) = PyFloat (- r)"
| "py_neg (PyComplex z) = PyComplex (- z)"

definition py_eq :: "number \<Rightarrow> number \<Rightarrow> bool" where
  "py_eq a b = (to_complex a = to_complex b)"

text \<open>Ordering comparisons raise \<^verbatim>\<open>TypeError\<close> on a complex operand.\<close>

definition py_lt :: "number \<Rightarrow> number \<Rightarrow> bool result" where
  "py_lt a b =
     (if is_complex a \<or> is_complex b
      then Inl (TypeError ''< not supported between instances of complex and int'')
      else Inr (to_float a < to_float b))"

definition py_le :: "number \<Rightarrow> number \<Rightarrow> bool result" where
  "py_le a b =
     (if is_complex a \<or> is_complex b
      then Inl (TypeError ''<= not supported between instances of complex and int'')
      else Inr (to_float a \<le> to_float b))"

text \<open>True division \<^verbatim>\<open>/\<close>: never an int.\<close>

definition py_truediv :: "number \<Rightarrow> number \<Rightarrow> number result" where
  "py_truediv a b =
     (if py_eq b (PyInt 0) then Inl (ZeroDivisionError ''division by zero'')
      else if is_complex a \<or> is_complex b then Inr (PyComplex (to_complex a / to_complex b))
      else Inr (PyFloat (to_float a / to_float b)))"

text \<open>
  \<^verbatim>\<open>**\<close>. On two ints with a non-negative exponent the result is an int; a negative
  int exponent goes through floats. On floats a zero base with a negative exponent raises,
  and a negative base with a non-integral exponent gives the principal complex power.
\<close>

definition complex_pow :: "complex \<Rightarrow> complex \<Rightarrow> number result" where
  "complex_pow z w =
     (if w = 0 then Inr (PyComplex 1)
      else if z = 0 then
        (if Im w \<noteq> 0 \<or> Re w < 0
         then Inl (ZeroDivisionError ''0.0 to a negative or complex power'')
         else Inr (PyComplex 0))
      else Inr (PyComplex (exp (w * Complex (ln (cmod z)) (Arg z)))))"

definition float_pow :: "real \<Rightarrow> real \<Rightarrow> number result" where
  "float_pow x y =
     (if y = 0 then Inr (PyFloat 1)
      else if x = 0 \<and> y < 0
      then Inl (ZeroDivisionError ''0.0 cannot be raised to a negative power'')
      else if y = of_int \<lfloor>y\<rfloor> then
        (if 0 \<le> y then Inr (PyFloat (x ^ nat \<lfloor>y\<rfloor>))
         else Inr (PyFloat (1 / x ^ nat (- \<lfloor>y\<rfloor>))))
      else if x < 0 then complex_pow (of_real x) (of_real y)
      else Inr (PyFloat (x powr y)))"

fun py_pow :: "number \<Rightarrow> number \<Rightarrow> number result" where
  "py_pow (PyInt a) (PyInt b) =
     (if 0 \<le> b then Inr (PyInt (a ^ nat b)) else float_pow (of_int a) (of_int b))"
| "py_pow (PyComplex z) b = complex_pow z (to_complex b)"
| "py_pow a (PyComplex w) = complex_pow (to_complex a) w"
| "py_pow a b = float_pow (to_float a) (to_float b)"

text \<open>
  The functions of Python's \<^verbatim>\<open>math\<close> module the evaluator calls. Each converts its
  argument to a float (a complex argument is a \<^verbatim>\<open>TypeError\<close>) and returns a float.
\<close>

definition math_sqrt :: "number \<Rightarrow> number result" where
  "math_sqrt a =
     (if is_complex a then Inl (TypeError ''must be real number, not complex'')
      else if to_float a < 0 then Inl (ValueError ''math domain error'')
      else Inr (PyFloat (sqrt (to_float a))))"

definition math_log10 :: "number \<Rightarrow> number result" where
  "math_log10 a =
     (if is_complex a then Inl (TypeError ''must be real number, not complex'')
      else if to_float a \<le> 0 then Inl (ValueError ''math domain error'')
      else Inr (PyFloat (log 10 (to_float a))))"

definition math_sin :: "number \<Rightarrow> number result" where
  "math_sin a =
     (if is_complex a then Inl (TypeError ''must be real number, not complex'')
      else Inr (PyFloat (sin (to_float a))))"

definition math_cos :: "number \<Rightarrow> number result" where
  "math_cos a =
     (if is_complex a then Inl (TypeError ''must be real number, not complex'')
      else Inr (PyFloat (cos (to_float a))))"

subsection \<open>Tokens (token.py)\<close>

datatype Token = Token (tok_type: TokenType) (tok_value: tokval)

subsection \<open>The lexer (lexer.py)\<close>

text \<open>
  Python's \<^verbatim>\<open>str.isdigit\<close>, \<^verbatim>\<open>isspace\<close>, \<^verbatim>\<open>isalpha\<close> and \<^verbatim>\<open>isalnum\<close> on ASCII
  characters (a \<open>char\<close> is a byte; text outside ASCII is outside the model).
\<close>

definition isdigit :: "char \<Rightarrow> bool" where
  "isdigit c = (c \<in> set ''0123456789'')"

definition isspace :: "char \<Rightarrow> bool" where
  "isspace c = (of_char c \<in> set [9, 10, 11, 12, 13, 28, 29, 30, 31, 32 :: nat])"

definition isalpha :: "char \<Rightarrow> bool" where
  "isalpha c = (c \<in> set ''abcdefghijklmnopqrstuvwxyzABCDEFGHIJKLMNOPQRSTUVWXYZ'')"

definition isalnum :: "char \<Rightarrow> bool" where
  "isalnum c = (isalpha c \<or> isdigit c)"

text \<open>\<^verbatim>\<open>int(num)\<close> and \<^verbatim>\<open>float(num)\<close> on the digit strings \<^verbatim>\<open>read_number\<close> builds.\<close>

definition digit_value :: "char \<Rightarrow> nat" where
  "digit_value c = of_char c - 48"

definition py_int :: "string \<Rightarrow> int" where
  "py_int num = int (foldl (\<lambda>acc c. 10 * acc + digit_value c) 0 num)"

definition py_float :: "string \<Rightarrow> real" where
  "py_float num =
     (let ip = takeWhile (\<lambda>c. c \<noteq> CHR ''.'') num;
          fp = drop (length ip + 1) num
      in of_int (py_int ip) + of_int (py_int fp) / 10 ^ length fp)"

function read_number_loop :: "string \<Rightarrow> nat \<Rightarrow> string \<Rightarrow> bool \<Rightarrow> (string \<times> bool \<times> nat) result" where
  "read_number_loop text curPosition num hasDecimalPoint =
     (if curPosition < length text then
        (if isdigit (text ! curPosition)
         then read_number_loop text (curPosition + 1) (num @ [text ! curPosition]) hasDecimalPoint
         else if text ! curPosition = CHR ''.'' \<and> curPosition + 1 < length text
                 \<and> isdigit (text ! (curPosition + 1)) \<and> hasDecimalPoint = False
         then read_number_loop text (curPosition + 1) (num @ ''.'') True
         else if text ! curPosition = CHR ''.'' \<and> curPosition + 1 < length text
                 \<and> isdigit (text ! (curPosition + 1)) \<and> hasDecimalPoint = True
         then Inl (LexerError ''Multiple decimal points'' (curPosition + 1))
         else Inr (num, hasDecimalPoint, curPosition))
      else Inr (num, hasDecimalPoint, curPosition))"
  by pat_completeness auto
termination
  by (relation "measure (\<lambda>(text, curPosition, num, hasDecimalPoint). length text - curPosition)") auto

definition read_number :: "string \<Rightarrow> nat \<Rightarrow> (Token \<times> nat) result" where
  "read_number text curPosition =
     (case read_number_loop text curPosition '''' False of
        Inl e \<Rightarrow> Inl e
      | Inr (num, hasDecimalPoint, curPosition') \<Rightarrow>
          if hasDecimalPoint = True
          then Inr (Token T_number (VNum (PyFloat (py_float num))), curPosition')
          else Inr (Token T_number (VNum (PyInt (py_int num))), curPosition'))"

function read_function_loop :: "string \<Rightarrow> nat \<Rightarrow> string \<Rightarrow> string \<times> nat" where
  "read_function_loop text curPosition fun_name =
     (if curPosition < length text \<and> isalnum (text ! curPosition)
      then read_function_loop text (curPosition + 1) (fun_name @ [text ! curPosition])
      else (fun_name, curPosition))"
  by pat_completeness auto
termination
  by (relation "measure (\<lambda>(text, curPosition, fun_name). length text - curPosition)") auto

definition read_function :: "string \<Rightarrow> nat \<Rightarrow> Token \<times> nat" where
  "read_function text curPosition =
     (case read_function_loop text curPosition '''' of
        (fun_name, curPosition') \<Rightarrow> (Token T_function (VStr fun_name), curPosition'))"

function ignoreWhitespaces :: "string \<Rightarrow> nat \<Rightarrow> nat" where
  "ignoreWhitespaces text curPosition =
     (if curPosition < length text \<and> isspace (text ! curPosition)
      then ignoreWhitespaces text (curPosition + 1)
      else curPosition)"
  by pat_completeness auto
termination
  by (relation "measure (\<lambda>(text, curPosition). length text - curPosition)") auto

declare read_number_loop.simps [simp del] read_function_loop.simps [simp del]
  ignoreWhitespaces.simps [simp del]

lemma read_number_loop_mono:
  "read_number_loop text curPosition num hasDecimalPoint = Inr (num', h', c') \<Longrightarrow> curPosition \<le> c'"
proof (induction "text" curPosition num hasDecimalPoint rule: read_number_loop.induct)
  case (1 tx curPosition num hasDecimalPoint)
  let ?dot = "tx ! curPosition = CHR ''.'' \<and> curPosition + 1 < length tx
                 \<and> isdigit (tx ! (curPosition + 1)) \<and> hasDecimalPoint = False"
  consider (digit) "curPosition < length tx" "isdigit (tx ! curPosition)"
    | (dot) "curPosition < length tx" "\<not> isdigit (tx ! curPosition)" "?dot"
    | (stop) "\<not> (curPosition < length tx \<and> (isdigit (tx ! curPosition) \<or> ?dot))"
    by blast
  then show ?case
  proof cases
    case digit
    with "1.prems" have
      "read_number_loop tx (curPosition + 1) (num @ [tx ! curPosition]) hasDecimalPoint
         = Inr (num', h', c')"
      by (subst (asm) read_number_loop.simps) simp
    from "1.IH"(1)[OF digit this] show ?thesis by simp
  next
    case dot
    with "1.prems" have
      "read_number_loop tx (curPosition + 1) (num @ ''.'') True = Inr (num', h', c')"
      by (subst (asm) read_number_loop.simps) simp
    from "1.IH"(2)[OF dot this] show ?thesis by simp
  next
    case stop
    with "1.prems" show ?thesis
      by (subst (asm) read_number_loop.simps) (auto split: if_splits)
  qed
qed

lemma read_number_advances:
  assumes "curPosition < length text" "isdigit (text ! curPosition)"
    and "read_number text curPosition = Inr (tok, c')"
  shows "curPosition < c'"
proof -
  from assms(3) obtain num h where
    "read_number_loop text curPosition '''' False = Inr (num, h, c')"
    by (auto simp: read_number_def split: sum.splits if_splits)
  with assms(1,2) obtain num2 h2 where
    "read_number_loop text (curPosition + 1) num2 h2 = Inr (num, h, c')"
    by (subst (asm) read_number_loop.simps) auto
  from read_number_loop_mono[OF this] show ?thesis by simp
qed

lemma read_function_loop_mono:
  "read_function_loop text curPosition fun_name = (f', c') \<Longrightarrow> curPosition \<le> c'"
proof (induction "text" curPosition fun_name rule: read_function_loop.induct)
  case (1 tx curPosition fun_name)
  show ?case
  proof (cases "curPosition < length tx \<and> isalnum (tx ! curPosition)")
    case True
    with "1.prems" have
      "read_function_loop tx (curPosition + 1) (fun_name @ [tx ! curPosition]) = (f', c')"
      by (subst (asm) read_function_loop.simps) simp
    from "1.IH"[OF True this] show ?thesis by simp
  next
    case False
    with "1.prems" show ?thesis
      by (subst (asm) read_function_loop.simps) simp
  qed
qed

lemma isalpha_isalnum: "isalpha c \<Longrightarrow> isalnum c"
  by (simp add: isalnum_def)

lemma read_function_advances:
  assumes "curPosition < length text" "isalpha (text ! curPosition)"
    and "read_function text curPosition = (tok, c')"
  shows "curPosition < c'"
proof -
  from assms(3) obtain f where "read_function_loop text curPosition '''' = (f, c')"
    by (auto simp: read_function_def split: prod.splits)
  with assms(1,2) obtain f2 where "read_function_loop text (curPosition + 1) f2 = (f, c')"
    by (subst (asm) read_function_loop.simps) (auto simp: isalpha_isalnum)
  from read_function_loop_mono[OF this] show ?thesis by simp
qed

lemma ignoreWhitespaces_mono: "curPosition \<le> ignoreWhitespaces text curPosition"
proof (induction "text" curPosition rule: ignoreWhitespaces.induct)
  case (1 tx curPosition)
  show ?case
    by (subst ignoreWhitespaces.simps) (use "1.IH" in \<open>auto split: if_splits\<close>)
qed

lemma ignoreWhitespaces_advances:
  assumes "curPosition < length text" "isspace (text ! curPosition)"
  shows "curPosition < ignoreWhitespaces text curPosition"
proof -
  have "ignoreWhitespaces text curPosition = ignoreWhitespaces text (curPosition + 1)"
    using assms by (subst ignoreWhitespaces.simps) simp
  with ignoreWhitespaces_mono[of "curPosition + 1" "text"] show ?thesis by simp
qed

function lex :: "string \<Rightarrow> string \<Rightarrow> nat \<Rightarrow> Token list \<Rightarrow> Token list result" where
  "lex text variable curPosition tokens =
     (if curPosition < length text then
        (let char = text ! curPosition in
         if [char] = variable
         then lex text variable (curPosition + 1) (tokens @ [Token T_variable (VStr ''x'')])
         else if isdigit char then
           (case read_number text curPosition of
              Inl e \<Rightarrow> Inl e
            | Inr (tok, curPosition') \<Rightarrow> lex text variable curPosition' (tokens @ [tok]))
         else if isspace char
         then lex text variable (ignoreWhitespaces text curPosition) tokens
         else if char = CHR ''-''
         then lex text variable (curPosition + 1) (tokens @ [Token T_minus (VStr [char])])
         else if char = CHR ''+''
         then lex text variable (curPosition + 1) (tokens @ [Token T_plus (VStr [char])])
         else if char = CHR ''*''
         then lex text variable (curPosition + 1) (tokens @ [Token T_asterisk (VStr [char])])
         else if char = CHR ''/''
         then lex text variable (curPosition + 1) (tokens @ [Token T_slash (VStr [char])])
         else if char = CHR ''^''
         then lex text variable (curPosition + 1) (tokens @ [Token T_exponent (VStr [char])])
         else if char = CHR ''(''
         then lex text variable (curPosition + 1) (tokens @ [Token T_lparen (VStr ''('')])
         else if char = CHR '')''
         then lex text variable (curPosition + 1) (tokens @ [Token T_rparen (VStr '')'')])
         else if isalpha char then
           (case read_function text curPosition of
              (tok, curPosition') \<Rightarrow> lex text variable curPosition' (tokens @ [tok]))
         else if char = CHR ''.''
         then lex text variable (curPosition + 1) (tokens @ [Token T_dot (VStr [char])])
         else Inl (LexerError ''Invalid character'' (curPosition + 1)))
      else Inr tokens)"
  by pat_completeness auto
termination
proof (relation "measure (\<lambda>(text, variable, curPosition, tokens). length text - curPosition)",
    goal_cases)
  case (3 tx variable curPosition tokens x x2 xa y)
  with read_number_advances[of curPosition tx xa y] show ?case by simp
next
  case (4 tx variable curPosition tokens x)
  with ignoreWhitespaces_advances[of curPosition tx] show ?case by simp
next
  case (12 tx variable curPosition tokens x xa y)
  with read_function_advances[of curPosition tx xa y] show ?case by simp
qed simp_all

declare lex.simps [simp del]

text \<open>\<^verbatim>\<open>Lexer(text, variable)\<close>: the constructor runs \<^verbatim>\<open>lex\<close>; the result is the field \<^verbatim>\<open>tokens\<close>.\<close>

definition Lexer :: "string \<Rightarrow> string \<Rightarrow> Token list result" where
  "Lexer text variable = lex text variable 0 []"

subsection \<open>The expression tree (ast.py)\<close>

datatype ASTNode =
    NumberLiteral number
  | Variable string
  | PrefixExpression string ASTNode
  | InfixExpression ASTNode string ASTNode
  | FunctionCall string ASTNode

subsection \<open>The parser (parser.py)\<close>

text \<open>
  The dictionaries \<^verbatim>\<open>precedences\<close>, \<^verbatim>\<open>prefixFunctions\<close> and \<^verbatim>\<open>infixFunctions\<close> are
  maps; the bound methods registered in them are named by the constructors of
  \<open>PrefixFunction\<close> and \<open>InfixFunction\<close> (\<open>plus_lambda_f\<close> is the
  \<^verbatim>\<open>lambda _: self.parseExpression()\<close> registered for \<^verbatim>\<open>"plus"\<close>).
\<close>

definition precedences :: "TokenType \<rightharpoonup> int" where
  "precedences = [T_plus \<mapsto> 1, T_minus \<mapsto> 1, T_asterisk \<mapsto> 2, T_slash \<mapsto> 2, T_exponent \<mapsto> 3,
                  T_variable \<mapsto> 4, T_lparen \<mapsto> 4, T_function \<mapsto> 4]"

definition implicitMultiplications :: "TokenType list" where
  "implicitMultiplications = [T_variable, T_function, T_lparen]"

datatype PrefixFunction = parseNumber_f | parseVariable_f | parsePrefixExpression_f
  | plus_lambda_f | parseParen_f | parseFunction_f

datatype InfixFunction = parseInfixExpression_f | parseImplicitMultiplication_f

definition prefixFunctions :: "TokenType \<rightharpoonup> PrefixFunction" where
  "prefixFunctions = [T_number \<mapsto> parseNumber_f, T_variable \<mapsto> parseVariable_f,
     T_minus \<mapsto> parsePrefixExpression_f, T_plus \<mapsto> plus_lambda_f,
     T_lparen \<mapsto> parseParen_f, T_function \<mapsto> parseFunction_f]"

definition infixFunctions :: "TokenType \<rightharpoonup> InfixFunction" where
  "infixFunctions = [T_plus \<mapsto> parseInfixExpression_f, T_minus \<mapsto> parseInfixExpression_f,
     T_asterisk \<mapsto> parseInfixExpression_f, T_slash \<mapsto> parseInfixExpression_f,
     T_exponent \<mapsto> parseInfixExpression_f, T_variable \<mapsto> parseImplicitMultiplication_f,
     T_lparen \<mapsto> parseImplicitMultiplication_f, T_function \<mapsto> parseImplicitMultiplication_f]"

definition getPrecedence :: "Token list \<Rightarrow> nat \<Rightarrow> int" where
  "getPrecedence tokens curToken =
     (case precedences (tok_type (tokens ! curToken)) of None \<Rightarrow> 0 | Some p \<Rightarrow> p)"

definition parseNumber :: "Token \<Rightarrow> nat \<Rightarrow> (ASTNode \<times> nat) result" where
  "parseNumber token curToken =
     (case tok_value token of
        VNum n \<Rightarrow> Inr (NumberLiteral n, curToken)
      | VStr _ \<Rightarrow> Inl (TypeError ''token.value must be int or float''))"

definition parseVariable :: "Token \<Rightarrow> nat \<Rightarrow> (ASTNode \<times> nat) result" where
  "parseVariable token curToken =
     (case tok_value token of
        VStr s \<Rightarrow> Inr (Variable s, curToken)
      | VNum _ \<Rightarrow> Inl (TypeError ''toke.value must be str''))"

function (domintros)
      parseExpression :: "Token list \<Rightarrow> int \<Rightarrow> nat \<Rightarrow> (ASTNode \<times> nat) result"
  and parse_while :: "Token list \<Rightarrow> int \<Rightarrow> ASTNode \<Rightarrow> nat \<Rightarrow> (ASTNode \<times> nat) result"
  and parseImplicitMultiplication :: "Token list \<Rightarrow> ASTNode \<Rightarrow> nat \<Rightarrow> (ASTNode \<times> nat) result"
  and parsePrefixExpression :: "Token list \<Rightarrow> Token \<Rightarrow> nat \<Rightarrow> (ASTNode \<times> nat) result"
  and parseInfixExpression :: "Token list \<Rightarrow> ASTNode \<Rightarrow> Token \<Rightarrow> nat \<Rightarrow> (ASTNode \<times> nat) result"
  and parseParen :: "Token list \<Rightarrow> nat \<Rightarrow> (ASTNode \<times> nat) result"
  and parseFunction :: "Token list \<Rightarrow> Token \<Rightarrow> nat \<Rightarrow> (ASTNode \<times> nat) result"
where
  "parseExpression tokens precedence curToken =
     (if curToken \<ge> length tokens
      then Inl (ParserError ''Nothing to parse at the end of the input'')
      else
        let token = tokens ! curToken; curToken1 = curToken + 1 in
        (case prefixFunctions (tok_type token) of
           None \<Rightarrow> Inl (ParserError_f ''No prefix function for '' (tok_value token))
         | Some prefix \<Rightarrow>
             (case (case prefix of
                      parseNumber_f \<Rightarrow> parseNumber token curToken1
                    | parseVariable_f \<Rightarrow> parseVariable token curToken1
                    | parsePrefixExpression_f \<Rightarrow> parsePrefixExpression tokens token curToken1
                    | plus_lambda_f \<Rightarrow> parseExpression tokens 0 curToken1
                    | parseParen_f \<Rightarrow> parseParen tokens curToken1
                    | parseFunction_f \<Rightarrow> parseFunction tokens token curToken1) of
                Inl e \<Rightarrow> Inl e
              | Inr (left, curToken2) \<Rightarrow> parse_while tokens precedence left curToken2)))"
| "parse_while tokens precedence left curToken =
     (if curToken < length tokens \<and> precedence < getPrecedence tokens curToken
      then
        let token = tokens ! curToken;
            curToken1 = (if tok_type token \<notin> set implicitMultiplications
                         then curToken + 1 else curToken) in
        (case infixFunctions (tok_type token) of
           None \<Rightarrow> Inl (KeyError (tok_type token))
         | Some infix_f \<Rightarrow>
             (case (case infix_f of
                      parseInfixExpression_f \<Rightarrow> parseInfixExpression tokens left token curToken1
                    | parseImplicitMultiplication_f \<Rightarrow>
                        parseImplicitMultiplication tokens left curToken1) of
                Inl e \<Rightarrow> Inl e
              | Inr (left', curToken2) \<Rightarrow> parse_while tokens precedence left' curToken2))
      else Inr (left, curToken))"
| "parseImplicitMultiplication tokens left curToken =
     (case precedences T_asterisk of
        None \<Rightarrow> Inl (KeyError T_asterisk)
      | Some p \<Rightarrow>
         (case parseExpression tokens p curToken of
            Inl e \<Rightarrow> Inl e
          | Inr (right, curToken') \<Rightarrow> Inr (InfixExpression left ''*'' right, curToken')))"
| "parsePrefixExpression tokens token curToken =
     (case tok_value token of
        VNum _ \<Rightarrow> Inl (TypeError ''toke.value must be str'')
      | VStr v \<Rightarrow>
         (case parseExpression tokens 0 curToken of
            Inl e \<Rightarrow> Inl e
          | Inr (operand, curToken') \<Rightarrow> Inr (PrefixExpression v operand, curToken')))"
| "parseInfixExpression tokens left token curToken =
     (case tok_value token of
        VNum _ \<Rightarrow> Inl (TypeError ''toke.value must be str'')
      | VStr v \<Rightarrow>
         (case precedences (tok_type token) of
            None \<Rightarrow> Inl (KeyError (tok_type token))
          | Some p \<Rightarrow>
             if tok_type token = T_exponent then
               (case parseExpression tokens (p - 1) curToken of
                  Inl e \<Rightarrow> Inl e
                | Inr (right, curToken') \<Rightarrow> Inr (InfixExpression left v right, curToken'))
             else
               (case parseExpression tokens p curToken of
                  Inl e \<Rightarrow> Inl e
                | Inr (right, curToken') \<Rightarrow> Inr (InfixExpression left v right, curToken'))))"
| "parseParen tokens curToken =
     (case parseExpression tokens 0 curToken of
        Inl e \<Rightarrow> Inl e
      | Inr (node, curToken') \<Rightarrow>
          if curToken' < length tokens \<and> tok_type (tokens ! curToken') \<noteq> T_rparen
          then Inl (ParserError ''Expected right parenthesis'')
          else Inr (node, curToken' + 1))"
| "parseFunction tokens token curToken =
     (if curToken \<ge> length tokens then Inl (ParserError ''Expected left parenthesis'')
      else if tok_type (tokens ! curToken) \<noteq> T_lparen
      then Inl (ParserError ''Expected left parenthesis'')
      else
        (case tok_value token of
           VNum _ \<Rightarrow> Inl (TypeError ''Functions must be strings'')
         | VStr v \<Rightarrow>
            (case parseParen tokens (curToken + 1) of
               Inl e \<Rightarrow> Inl e
             | Inr (parameter, curToken') \<Rightarrow> Inr (FunctionCall v parameter, curToken'))))"
  by pat_completeness auto


lemmas parser_psimps = parseExpression.psimps parse_while.psimps parseImplicitMultiplication.psimps
  parsePrefixExpression.psimps parseInfixExpression.psimps parseParen.psimps parseFunction.psimps

lemma parseNumber_cur: "parseNumber token c = Inr (n, c') \<Longrightarrow> c' = c"
  by (auto simp: parseNumber_def split: tokval.splits)

lemma parseVariable_cur: "parseVariable token c = Inr (n, c') \<Longrightarrow> c' = c"
  by (auto simp: parseVariable_def split: tokval.splits)

lemma parser_progress_dom:
  "parseExpression_parse_while_parseImplicitMultiplication_parsePrefixExpression_parseInfixExpression_parseParen_parseFunction_dom
     (Inl (Inl (tokens, precedence, curToken))) \<Longrightarrow>
   (\<forall>n c. parseExpression tokens precedence curToken = Inr (n, c) \<longrightarrow> curToken < c)"
  "parseExpression_parse_while_parseImplicitMultiplication_parsePrefixExpression_parseInfixExpression_parseParen_parseFunction_dom
     (Inl (Inr (Inl (tokens, precedence, left, curToken)))) \<Longrightarrow>
   (\<forall>n c. parse_while tokens precedence left curToken = Inr (n, c) \<longrightarrow> curToken \<le> c)"
  "parseExpression_parse_while_parseImplicitMultiplication_parsePrefixExpression_parseInfixExpression_parseParen_parseFunction_dom
     (Inl (Inr (Inr (tokens, left, curToken)))) \<Longrightarrow>
   (\<forall>n c. parseImplicitMultiplication tokens left curToken = Inr (n, c) \<longrightarrow> curToken < c)"
  "parseExpression_parse_while_parseImplicitMultiplication_parsePrefixExpression_parseInfixExpression_parseParen_parseFunction_dom
     (Inr (Inl (Inl (tokens, token, curToken)))) \<Longrightarrow>
   (\<forall>n c. parsePrefixExpression tokens token curToken = Inr (n, c) \<longrightarrow> curToken < c)"
  "parseExpression_parse_while_parseImplicitMultiplication_parsePrefixExpression_parseInfixExpression_parseParen_parseFunction_dom
     (Inr (Inl (Inr (tokens, left, token, curToken)))) \<Longrightarrow>
   (\<forall>n c. parseInfixExpression tokens left token curToken = Inr (n, c) \<longrightarrow> curToken < c)"
  "parseExpression_parse_while_parseImplicitMultiplication_parsePrefixExpression_parseInfixExpression_parseParen_parseFunction_dom
     (Inr (Inr (Inl (tokens, curToken)))) \<Longrightarrow>
   (\<forall>n c. parseParen tokens curToken = Inr (n, c) \<longrightarrow> curToken < c)"
  "parseExpression_parse_while_parseImplicitMultiplication_parsePrefixExpression_parseInfixExpression_parseParen_parseFunction_dom
     (Inr (Inr (Inr (tokens, token, curToken)))) \<Longrightarrow>
   (\<forall>n c. parseFunction tokens token curToken = Inr (n, c) \<longrightarrow> curToken < c)"
proof (induct rule: parseExpression_parse_while_parseImplicitMultiplication_parsePrefixExpression_parseInfixExpression_parseParen_parseFunction.pinduct)
  case (1 tokens precedence curToken)
  show ?case
  proof (intro allI impI)
    fix n c
    assume res: "parseExpression tokens precedence curToken = Inr (n, c)"
    from res "1.hyps"(1) have lt: "\<not> length tokens \<le> curToken"
      by (auto simp: parser_psimps split: if_splits)
    from res "1.hyps"(1) lt obtain pf where pf: "prefixFunctions (tok_type (tokens ! curToken)) = Some pf"
      by (auto simp: parser_psimps Let_def split: option.splits)
    from res "1.hyps"(1) lt pf obtain l c2 where
      h0: "(case pf of parseNumber_f \<Rightarrow> parseNumber (tokens ! curToken) (Suc curToken)
            | parseVariable_f \<Rightarrow> parseVariable (tokens ! curToken) (Suc curToken)
            | parsePrefixExpression_f \<Rightarrow> parsePrefixExpression tokens (tokens ! curToken) (Suc curToken)
            | plus_lambda_f \<Rightarrow> parseExpression tokens 0 (Suc curToken)
            | parseParen_f \<Rightarrow> parseParen tokens (Suc curToken)
            | parseFunction_f \<Rightarrow> parseFunction tokens (tokens ! curToken) (Suc curToken)) = Inr (l, c2)"
      and w: "parse_while tokens precedence l c2 = Inr (n, c)"
      by (auto simp: parser_psimps Let_def split: sum.splits)
    from h0 have
      h: "(case pf of parseNumber_f \<Rightarrow> parseNumber (tokens ! curToken) (curToken + 1)
            | parseVariable_f \<Rightarrow> parseVariable (tokens ! curToken) (curToken + 1)
            | parsePrefixExpression_f \<Rightarrow> parsePrefixExpression tokens (tokens ! curToken) (curToken + 1)
            | plus_lambda_f \<Rightarrow> parseExpression tokens 0 (curToken + 1)
            | parseParen_f \<Rightarrow> parseParen tokens (curToken + 1)
            | parseFunction_f \<Rightarrow> parseFunction tokens (tokens ! curToken) (curToken + 1)) = Inr (l, c2)"
      unfolding Suc_eq_plus1 .
    have "curToken + 1 \<le> c2"
    proof (cases pf)
      case parseNumber_f
      with h show ?thesis by (auto dest: parseNumber_cur)
    next
      case parseVariable_f
      with h show ?thesis by (auto dest: parseVariable_cur)
    next
      case parsePrefixExpression_f
      with h "1.hyps"(2)[OF lt refl refl pf] show ?thesis by auto
    next
      case plus_lambda_f
      with h "1.hyps"(3)[OF lt refl refl pf] show ?thesis by auto
    next
      case parseParen_f
      with h "1.hyps"(4)[OF lt refl refl pf] show ?thesis by auto
    next
      case parseFunction_f
      with h "1.hyps"(5)[OF lt refl refl pf] show ?thesis by auto
    qed
    moreover from "1.hyps"(6)[OF lt refl refl pf h refl] w have "c2 \<le> c" by auto
    ultimately show "curToken < c" by simp
  qed
next
  case (2 tokens precedence left curToken)
  show ?case
  proof (intro allI impI)
    fix n c
    assume res: "parse_while tokens precedence left curToken = Inr (n, c)"
    show "curToken \<le> c"
    proof (cases "curToken < length tokens \<and> precedence < getPrecedence tokens curToken")
      case False
      with res "2.hyps"(1) show ?thesis by (auto simp: parser_psimps)
    next
      case True
      define c1 where "c1 = (if tok_type (tokens ! curToken) \<notin> set implicitMultiplications then curToken + 1 else curToken)"
      from res "2.hyps"(1) True obtain f where f: "infixFunctions (tok_type (tokens ! curToken)) = Some f"
        by (auto simp: parser_psimps Let_def split: option.splits)
      from res "2.hyps"(1) True f obtain l c2 where
        h: "(case f of parseInfixExpression_f \<Rightarrow> parseInfixExpression tokens left (tokens ! curToken) c1
             | parseImplicitMultiplication_f \<Rightarrow> parseImplicitMultiplication tokens left c1) = Inr (l, c2)"
        and w: "parse_while tokens precedence l c2 = Inr (n, c)"
        unfolding c1_def
        by (auto simp: parser_psimps Let_def split: sum.splits)
      have "c1 < c2"
      proof (cases f)
        case parseInfixExpression_f
        with h "2.hyps"(2)[OF True refl c1_def f] show ?thesis by auto
      next
        case parseImplicitMultiplication_f
        with h "2.hyps"(3)[OF True refl c1_def f] show ?thesis by auto
      qed
      moreover have "curToken \<le> c1" by (simp add: c1_def)
      moreover from "2.hyps"(4)[OF True refl c1_def f h refl] w have "c2 \<le> c" by auto
      ultimately show ?thesis by simp
    qed
  qed
next
  case (3 tokens left curToken)
  then show ?case
    by (auto simp: parser_psimps split: option.splits sum.splits)
next
  case (4 tokens token curToken)
  then show ?case
    by (auto simp: parser_psimps split: tokval.splits sum.splits)
next
  case (5 tokens left token curToken)
  then show ?case
    by (auto simp: parser_psimps split: tokval.splits option.splits sum.splits)
next
  case (6 tokens curToken)
  then show ?case
    by (auto simp: parser_psimps split: sum.splits if_splits)
next
  case (7 tokens token curToken)
  then show ?case
    by (auto simp: parser_psimps split: tokval.splits sum.splits if_splits)
qed

termination parseExpression
  apply (relation "measure (\<lambda>x. case x of
      Inl (Inl (tokens, p, c)) \<Rightarrow> 3 * (length tokens - c)
    | Inl (Inr (Inl (tokens, p, l, c))) \<Rightarrow> 3 * (length tokens - c) + 2
    | Inl (Inr (Inr (tokens, l, c))) \<Rightarrow> 3 * (length tokens - c) + 1
    | Inr (Inl (Inl (tokens, t, c))) \<Rightarrow> 3 * (length tokens - c) + 1
    | Inr (Inl (Inr (tokens, l, t, c))) \<Rightarrow> 3 * (length tokens - c) + 1
    | Inr (Inr (Inl (tokens, c))) \<Rightarrow> 3 * (length tokens - c) + 1
    | Inr (Inr (Inr (tokens, t, c))) \<Rightarrow> 3 * (length tokens - c) + 1)")
  apply simp_all
  subgoal for tokens curToken x xa x2 b xb y
    by (cases x2; cases b)
       (auto dest: parseNumber_cur parseVariable_cur parser_progress_dom[rule_format])
  subgoal by auto
  subgoal by auto
  subgoal for tokens precedence left curToken x xa x2 b xb y
    by (cases x2; cases b)
       (auto dest: parser_progress_dom[rule_format] split: if_splits)
  done

declare parseExpression.simps [simp del] parse_while.simps [simp del]
  parseImplicitMultiplication.simps [simp del] parsePrefixExpression.simps [simp del]
  parseInfixExpression.simps [simp del] parseParen.simps [simp del]
  parseFunction.simps [simp del]

text \<open>\<^verbatim>\<open>Parser(tokens).parse()\<close>: the cursor starts at 0.\<close>

definition parse :: "Token list \<Rightarrow> ASTNode result" where
  "parse tokens =
     (case parseExpression tokens 0 0 of
        Inl e \<Rightarrow> Inl e
      | Inr (tree, curToken) \<Rightarrow>
          if curToken < length tokens then Inl (ParserError ''Not a valid expression'')
          else Inr tree)"

text \<open>\<^verbatim>\<open>parse_expression\<close> of \<^verbatim>\<open>helpers.py\<close>: lex with the default variable, then parse.\<close>

definition parse_expression :: "string \<Rightarrow> ASTNode result" where
  "parse_expression expr =
     (case Lexer expr ''x'' of
        Inl e \<Rightarrow> Inl e
      | Inr tokens \<Rightarrow> parse tokens)"

subsection \<open>The evaluator (evaluator.py)\<close>

text \<open>
  The field \<^verbatim>\<open>self.variable_value\<close> is the first argument of every function. The
  methods that take a node take its fields.
\<close>

definition evaluate_number :: "number \<Rightarrow> number result" where
  "evaluate_number v = Inr v"

definition evaluate_variable :: "number \<Rightarrow> number result" where
  "evaluate_variable variable_value = Inr variable_value"

function evaluate_expression :: "number \<Rightarrow> ASTNode \<Rightarrow> number result"
  and evaluate_prefix_expression :: "number \<Rightarrow> string \<Rightarrow> ASTNode \<Rightarrow> number result"
  and evaluate_infix_expression :: "number \<Rightarrow> ASTNode \<Rightarrow> string \<Rightarrow> ASTNode \<Rightarrow> number result"
  and evaluate_function_call :: "number \<Rightarrow> string \<Rightarrow> ASTNode \<Rightarrow> number result"
where
  "evaluate_expression variable_value (NumberLiteral v) = evaluate_number v"
| "evaluate_expression variable_value (Variable name) = evaluate_variable variable_value"
| "evaluate_expression variable_value (PrefixExpression operator operand) =
     evaluate_prefix_expression variable_value operator operand"
| "evaluate_expression variable_value (InfixExpression left operator right) =
     evaluate_infix_expression variable_value left operator right"
| "evaluate_expression variable_value (FunctionCall function parameter) =
     evaluate_function_call variable_value function parameter"
| "evaluate_prefix_expression variable_value operator operand =
     (if operator = ''-'' then
        (case evaluate_expression variable_value operand of
           Inl e \<Rightarrow> Inl e
         | Inr v \<Rightarrow> Inr (py_neg v))
      else if operator = ''+'' then evaluate_expression variable_value operand
      else Inl (EvaluatorError ''Not a vaild prefix operator''))"
| "evaluate_infix_expression variable_value left operator right =
     (if operator = ''+'' then
        (case evaluate_expression variable_value left of
           Inl e \<Rightarrow> Inl e
         | Inr l \<Rightarrow>
            (case evaluate_expression variable_value right of
               Inl e \<Rightarrow> Inl e
             | Inr r \<Rightarrow> Inr (py_add l r)))
      else if operator = ''-'' then
        (case evaluate_expression variable_value left of
           Inl e \<Rightarrow> Inl e
         | Inr l \<Rightarrow>
            (case evaluate_expression variable_value right of
               Inl e \<Rightarrow> Inl e
             | Inr r \<Rightarrow> Inr (py_sub l r)))
      else if operator = ''*'' then
        (case evaluate_expression variable_value left of
           Inl e \<Rightarrow> Inl e
         | Inr l \<Rightarrow>
            (case evaluate_expression variable_value right of
               Inl e \<Rightarrow> Inl e
             | Inr r \<Rightarrow> Inr (py_mul l r)))
      else if operator = ''/'' then
        (case evaluate_expression variable_value left of
           Inl e \<Rightarrow> Inl e
         | Inr dividend \<Rightarrow>
            (case evaluate_expression variable_value right of
               Inl e \<Rightarrow> Inl e
             | Inr divisor \<Rightarrow>
                 if py_eq divisor (PyInt 0) then Inl (EvaluatorError ''Division by zero'')
                 else py_truediv dividend divisor))
      else if operator = ''^'' then
        (case evaluate_expression variable_value left of
           Inl e \<Rightarrow> Inl e
         | Inr l \<Rightarrow>
            (case evaluate_expression variable_value right of
               Inl e \<Rightarrow> Inl e
             | Inr r \<Rightarrow> py_pow l r))
      else Inl (EvaluatorError ''Not a vaild infix operator''))"
| "evaluate_function_call variable_value function parameter =
     (if function = ''sqrt'' then
        (case evaluate_expression variable_value parameter of
           Inl e \<Rightarrow> Inl e
         | Inr v \<Rightarrow>
            (case py_lt v (PyInt 0) of
               Inl e \<Rightarrow> Inl e
             | Inr negative \<Rightarrow>
                 if negative then Inl (EvaluatorError ''Square root of negative number'')
                 else math_sqrt v))
      else if function = ''log10'' then
        (case evaluate_expression variable_value parameter of
           Inl e \<Rightarrow> Inl e
         | Inr v \<Rightarrow>
            (case py_le v (PyInt 0) of
               Inl e \<Rightarrow> Inl e
             | Inr non_positive \<Rightarrow>
                 if non_positive then Inl (EvaluatorError ''Logarithm of non-positive number'')
                 else math_log10 v))
      else if function = ''sin'' then
        (case evaluate_expression variable_value parameter of
           Inl e \<Rightarrow> Inl e
         | Inr v \<Rightarrow> math_sin v)
      else if function = ''cos'' then
        (case evaluate_expression variable_value parameter of
           Inl e \<Rightarrow> Inl e
         | Inr v \<Rightarrow> math_cos v)
      else Inl (UnknownFunctionError function))"
  by pat_completeness auto
termination
  by (relation "measure (\<lambda>x. case x of
        Inl (Inl (v, ast)) \<Rightarrow> 2 * size ast
      | Inl (Inr (v, operator, operand)) \<Rightarrow> 2 * size operand + 1
      | Inr (Inl (v, left, operator, right)) \<Rightarrow> 2 * (size left + size right) + 1
      | Inr (Inr (v, f, parameter)) \<Rightarrow> 2 * size parameter + 1)") auto

text \<open>\<^verbatim>\<open>Evaluator(ast).evaluate(variable_value)\<close>.\<close>

definition evaluate :: "ASTNode \<Rightarrow> number \<Rightarrow> number result" where
  "evaluate ast variable_value = evaluate_expression variable_value ast"

subsection \<open>Conversion to a symbolic expression (ast.py)\<close>

text \<open>
  \<^verbatim>\<open>to_sympy_expr\<close> builds a sympy expression. sympy is a library outside the
  repository; \<open>Expr\<close> records the constructor calls the method makes (\<^verbatim>\<open>Add\<close>,
  \<^verbatim>\<open>Mul\<close>, \<^verbatim>\<open>Pow\<close>, \<^verbatim>\<open>sqrt\<close>, \<^verbatim>\<open>log\<close>, \<^verbatim>\<open>sin\<close>, \<^verbatim>\<open>cos\<close>, the symbol
  \<^verbatim>\<open>x\<close> and plain numbers) and leaves sympy's own simplification out.
\<close>

datatype Expr =
    Symbol string
  | Number number
  | Add Expr Expr
  | Mul Expr Expr
  | Pow Expr Expr
  | Sqrt Expr
  | Log Expr Expr
  | Sin Expr
  | Cos Expr

text \<open>
  The call \<^verbatim>\<open>ParserError(*args)\<close>. The class is
  \<^verbatim>\<open>class ParserError(Exception): def __init__(self, message: str) -> None\<close>:
  with exactly one positional argument the call yields the exception; with any other
  number of arguments Python raises \<^verbatim>\<open>TypeError\<close> from the call itself, and that is
  the exception the enclosing \<^verbatim>\<open>raise\<close> statement propagates.
\<close>

definition new_ParserError :: "tokval list \<Rightarrow> error" where
  "new_ParserError args =
     (case args of
        [VStr message] \<Rightarrow> ParserError message
      | _ \<Rightarrow> TypeError ''ParserError.__init__() takes 2 positional arguments'')"

fun to_sympy_expr :: "ASTNode \<Rightarrow> Expr result" where
  "to_sympy_expr (NumberLiteral v) = Inr (Number v)"
| "to_sympy_expr (Variable name) = Inr (Symbol ''x'')"
| "to_sympy_expr (PrefixExpression operator operand) =
     (if operator = ''-'' then
        (case to_sympy_expr operand of
           Inl e \<Rightarrow> Inl e
         | Inr a \<Rightarrow> Inr (Mul a (Number (PyInt (- 1)))))
      else Inl (new_ParserError [VStr ''Not a valid prefix operator'']))"
| "to_sympy_expr (InfixExpression left operator right) =
     (if operator = ''+'' then
        (case to_sympy_expr left of
           Inl e \<Rightarrow> Inl e
         | Inr l \<Rightarrow>
            (case to_sympy_expr right of Inl e \<Rightarrow> Inl e | Inr r \<Rightarrow> Inr (Add l r)))
      else if operator = ''-'' then
        (case to_sympy_expr left of
           Inl e \<Rightarrow> Inl e
         | Inr l \<Rightarrow>
            (case to_sympy_expr right of
               Inl e \<Rightarrow> Inl e
             | Inr r \<Rightarrow> Inr (Add l (Mul r (Number (PyInt (- 1)))))))
      else if operator = ''*'' then
        (case to_sympy_expr left of
           Inl e \<Rightarrow> Inl e
         | Inr l \<Rightarrow>
            (case to_sympy_expr right of Inl e \<Rightarrow> Inl e | Inr r \<Rightarrow> Inr (Mul l r)))
      else if operator = ''/'' then
        (case to_sympy_expr left of
           Inl e \<Rightarrow> Inl e
         | Inr l \<Rightarrow>
            (case to_sympy_expr right of
               Inl e \<Rightarrow> Inl e
             | Inr r \<Rightarrow> Inr (Mul l (Pow r (Number (PyInt (- 1)))))))
      else if operator = ''^'' then
        (case to_sympy_expr left of
           Inl e \<Rightarrow> Inl e
         | Inr l \<Rightarrow>
            (case to_sympy_expr right of Inl e \<Rightarrow> Inl e | Inr r \<Rightarrow> Inr (Pow l r)))
      else Inl (new_ParserError [VStr ''Not a valid infix operator'']))"
| "to_sympy_expr (FunctionCall function parameter) =
     (if function = ''sqrt'' then
        (case to_sympy_expr parameter of Inl e \<Rightarrow> Inl e | Inr a \<Rightarrow> Inr (Sqrt a))
      else if function = ''log10'' then
        (case to_sympy_expr parameter of
           Inl e \<Rightarrow> Inl e
         | Inr a \<Rightarrow> Inr (Log a (Number (PyInt 10))))
      else if function = ''sin'' then
        (case to_sympy_expr parameter of Inl e \<Rightarrow> Inl e | Inr a \<Rightarrow> Inr (Sin a))
      else if function = ''cos'' then
        (case to_sympy_expr parameter of Inl e \<Rightarrow> Inl e | Inr a \<Rightarrow> Inr (Cos a))
      else Inl (new_ParserError [VStr ''Not a valid function'', VNum (PyInt (- 1))]))"

subsection \<open>The sampler (helpers.py)\<close>

text \<open>
  \<^verbatim>\<open>evaluator_function(ast)\<close> is the bound method \<^verbatim>\<open>Evaluator(ast).evaluate\<close>.
\<close>

definition evaluator_function :: "ASTNode \<Rightarrow> number \<Rightarrow> number result" where
  "evaluator_function ast = evaluate ast"

text \<open>
  The numpy functions the sampler calls, on arrays as lists. numpy is a library outside
  the repository; each definition follows numpy's documentation. The x-values are
  floats (reals); a y-value is \<open>Some v\<close> or \<open>None\<close> for \<^verbatim>\<open>np.nan\<close>.

  \<^verbatim>\<open>np.linspace(start, stop, num)\<close>: \<open>num\<close> evenly spaced samples over the closed
  interval, \<^verbatim>\<open>ValueError\<close> for a negative \<open>num\<close>.
\<close>

definition linspace :: "real \<Rightarrow> real \<Rightarrow> nat \<Rightarrow> real list" where
  "linspace start stop num =
     map (\<lambda>i. start + real i * ((stop - start) / real (num - 1))) [0..<num]"

definition np_linspace :: "real \<Rightarrow> real \<Rightarrow> int \<Rightarrow> real list result" where
  "np_linspace start stop num =
     (if num < 0 then Inl (ValueError ''Number of samples must be non-negative'')
      else Inr (linspace start stop (nat num)))"

text \<open>\<^verbatim>\<open>np.union1d(a, b)\<close> is \<^verbatim>\<open>np.unique(np.concatenate((a, b)))\<close>: sorted, without repetitions.\<close>

definition np_unique :: "real list \<Rightarrow> real list" where
  "np_unique xs = sort (remdups xs)"

definition np_union1d :: "real list \<Rightarrow> real list \<Rightarrow> real list" where
  "np_union1d xs ys = np_unique (xs @ ys)"

definition np_sort :: "real list \<Rightarrow> real list" where
  "np_sort xs = sort xs"

text \<open>\<^verbatim>\<open>np.diff\<close>, \<^verbatim>\<open>np.abs\<close> and \<^verbatim>\<open>np.where(dy > tolerance)[0]\<close>; NaN propagates and compares false.\<close>

fun np_diff :: "number option list \<Rightarrow> number option list" where
  "np_diff (a # b # ys) =
     (case (a, b) of
        (Some u, Some v) \<Rightarrow> Some (py_sub v u)
      | _ \<Rightarrow> None) # np_diff (b # ys)"
| "np_diff ys = []"

fun py_abs :: "number \<Rightarrow> real" where
  "py_abs (PyInt i) = \<bar>of_int i\<bar>"
| "py_abs (PyFloat r) = \<bar>r\<bar>"
| "py_abs (PyComplex z) = cmod z"

definition np_abs :: "number option list \<Rightarrow> real option list" where
  "np_abs ys = map (map_option py_abs) ys"

definition np_where_gt :: "real option list \<Rightarrow> real \<Rightarrow> nat list" where
  "np_where_gt dy tolerance =
     filter (\<lambda>i. case dy ! i of Some d \<Rightarrow> tolerance < d | None \<Rightarrow> False) [0..<length dy]"

text \<open>
  \<^verbatim>\<open>safe_evaluate\<close>: the loop over \<^verbatim>\<open>x_values\<close> with the list \<^verbatim>\<open>y\<close> it appends to.
  The \<^verbatim>\<open>except EvaluatorError\<close> clause catches that class only; any other exception
  leaves the function.
\<close>

fun safe_evaluate_loop ::
  "(number \<Rightarrow> number result) \<Rightarrow> real list \<Rightarrow> number option list \<Rightarrow> number option list result" where
  "safe_evaluate_loop func [] y = Inr y"
| "safe_evaluate_loop func (x # x_values) y =
     (case func (PyFloat x) of
        Inr v \<Rightarrow> safe_evaluate_loop func x_values (y @ [Some v])
      | Inl (EvaluatorError message) \<Rightarrow> safe_evaluate_loop func x_values (y @ [None])
      | Inl e \<Rightarrow> Inl e)"

definition safe_evaluate ::
  "(number \<Rightarrow> number result) \<Rightarrow> real list \<Rightarrow> number option list result" where
  "safe_evaluate func x_values = safe_evaluate_loop func x_values []"

text \<open>
  \<^verbatim>\<open>adaptive_sampling(func, x_min, x_max, num_points, must_evaluate_points, tolerance)\<close>;
  the defaults of the last three parameters are \<open>1000\<close>, \<open>[]\<close> and \<open>1e-3\<close>.
\<close>

definition refine_points :: "real list \<Rightarrow> nat list \<Rightarrow> real list" where
  "refine_points x high_curvature =
     concat (map (\<lambda>i. linspace (x ! i) (x ! (i + 1)) 10) high_curvature)"

definition adaptive_sampling ::
  "(number \<Rightarrow> number result) \<Rightarrow> real \<Rightarrow> real \<Rightarrow> int \<Rightarrow> real list \<Rightarrow> real
     \<Rightarrow> (real list \<times> number option list) result" where
  "adaptive_sampling func x_min x_max num_points must_evaluate_points tolerance =
     (let must_evaluate_points = must_evaluate_points @ [0] in
      case np_linspace (min x_min (- 100)) (max x_max 100) num_points of
        Inl e \<Rightarrow> Inl e
      | Inr grid \<Rightarrow>
         (let x = np_union1d grid must_evaluate_points in
          case safe_evaluate func x of
            Inl e \<Rightarrow> Inl e
          | Inr y \<Rightarrow>
             (let dy = np_abs (np_diff y);
                  high_curvature = np_where_gt dy tolerance;
                  new_x = refine_points x high_curvature;
                  x = np_sort (np_union1d x new_x)
              in case safe_evaluate func x of
                   Inl e \<Rightarrow> Inl e
                 | Inr y \<Rightarrow> Inr (x, y))))"

subsection \<open>Names used in the statements\<close>

text \<open>The function names \<^verbatim>\<open>evaluate_function_call\<close> and \<^verbatim>\<open>FunctionCall.to_sympy_expr\<close> match on.\<close>

definition known_functions :: "string list" where
  "known_functions = [''sqrt'', ''log10'', ''sin'', ''cos'']"

text \<open>
  The \<^verbatim>\<open>ParserError\<close> messages of the spec's list of stable error strings (section 6),
  after the prefix \<^verbatim>\<open>ParserError: \<close>.
\<close>

definition documented_ParserError_messages :: "string list" where
  "documented_ParserError_messages =
     [''No prefix function for {value}'',
      ''Nothing to parse at the end of the input'',
      ''Expected left parenthesis'',
      ''Not a valid expression'']"

lemmas parser_simps = parseExpression.simps parse_while.simps parseImplicitMultiplication.simps
  parsePrefixExpression.simps parseInfixExpression.simps parseParen.simps parseFunction.simps

lemmas parser_tables = precedences_def prefixFunctions_def infixFunctions_def
  implicitMultiplications_def getPrecedence_def parseNumber_def parseVariable_def

text \<open>
  For the sampler: whether an exception is an \<^verbatim>\<open>EvaluatorError\<close>; whether an evaluation
  returns or fails with an \<^verbatim>\<open>EvaluatorError\<close>; the y-value \<^verbatim>\<open>safe_evaluate\<close> records
  for an evaluation it absorbs; and whether the y-values at \<open>i\<close> and \<open>i + 1\<close> differ by
  more than the tolerance (NaN never does).
\<close>

fun is_EvaluatorError :: "error \<Rightarrow> bool" where
  "is_EvaluatorError (EvaluatorError message) = True"
| "is_EvaluatorError e = False"

definition value_or_EvaluatorError :: "number result \<Rightarrow> bool" where
  "value_or_EvaluatorError r = (case r of Inr v \<Rightarrow> True | Inl e \<Rightarrow> is_EvaluatorError e)"

definition sample_value :: "number result \<Rightarrow> number option" where
  "sample_value r = (case r of Inr v \<Rightarrow> Some v | Inl e \<Rightarrow> None)"

definition high_curvature_pair :: "number option list \<Rightarrow> real \<Rightarrow> nat \<Rightarrow> bool" where
  "high_curvature_pair y tolerance i =
     (case (y ! i, y ! (i + 1)) of
        (Some u, Some v) \<Rightarrow> tolerance < py_abs (py_sub v u)
      | _ \<Rightarrow> False)"


text \<open>The function \<open>x * (x + 100)\<close> on the grid \<open>[-100, 0, 100]\<close>.\<close>

definition jump_tree :: ASTNode where
  "jump_tree = InfixExpression (Variable ''x'') ''*''
                 (InfixExpression (Variable ''x'') ''+'' (NumberLiteral (PyInt 100)))"


text \<open>A parser result with its cursor moved one position to the right.\<close>

definition shift_cursor :: "(ASTNode \<times> nat) result \<Rightarrow> (ASTNode \<times> nat) result" where
  "shift_cursor r = (case r of Inl e \<Rightarrow> Inl e | Inr (node, c) \<Rightarrow> Inr (node, Suc c))"


section \<open>Properties\<close>

subsection \<open>Exponentiation\<close>

text \<open>
  Claim C6. Exponentiation is right-associative: \<^verbatim>\<open>parseInfixExpression\<close> parses the right
  operand of \<^verbatim>\<open>^\<close> at one less than the precedence of \<^verbatim>\<open>exponent\<close> (which is 3), the
  text \<^verbatim>\<open>2^3^2\<close> parses to the tree of \<^verbatim>\<open>2^(3^2)\<close>, and that tree evaluates to 512 and
  not to 64 under every binding of the variable.
\<close>

theorem exponent_right_associative:
  "precedences T_exponent = Some 3
   \<and> (\<forall>tokens left v curToken.
        parseInfixExpression tokens left (Token T_exponent (VStr v)) curToken =
          (case parseExpression tokens (3 - 1) curToken of
             Inl e \<Rightarrow> Inl e
           | Inr (right, curToken') \<Rightarrow> Inr (InfixExpression left v right, curToken')))
   \<and> parse_expression ''2^3^2'' =
        Inr (InfixExpression (NumberLiteral (PyInt 2)) ''^''
              (InfixExpression (NumberLiteral (PyInt 3)) ''^'' (NumberLiteral (PyInt 2))))
   \<and> (\<forall>v. evaluate (InfixExpression (NumberLiteral (PyInt 2)) ''^''
              (InfixExpression (NumberLiteral (PyInt 3)) ''^'' (NumberLiteral (PyInt 2)))) v
            = Inr (PyInt 512))
   \<and> (\<forall>v. evaluate (InfixExpression (NumberLiteral (PyInt 2)) ''^''
              (InfixExpression (NumberLiteral (PyInt 3)) ''^'' (NumberLiteral (PyInt 2)))) v
            \<noteq> Inr (PyInt 64))"
proof -
  have prec: "precedences T_exponent = Some 3"
    by (simp add: precedences_def)
  have rhs: "parseInfixExpression tokens left (Token T_exponent (VStr v)) curToken =
          (case parseExpression tokens (3 - 1) curToken of
             Inl e \<Rightarrow> Inl e
           | Inr (right, curToken') \<Rightarrow> Inr (InfixExpression left v right, curToken'))"
    for tokens left v curToken
    by (simp add: parseInfixExpression.simps prec)
  have tree: "parse_expression ''2^3^2'' =
        Inr (InfixExpression (NumberLiteral (PyInt 2)) ''^''
              (InfixExpression (NumberLiteral (PyInt 3)) ''^'' (NumberLiteral (PyInt 2))))"
    by code_simp
  have val: "evaluate (InfixExpression (NumberLiteral (PyInt 2)) ''^''
              (InfixExpression (NumberLiteral (PyInt 3)) ''^'' (NumberLiteral (PyInt 2)))) v
            = Inr (PyInt 512)" for v
    by (simp add: evaluate_def evaluate_number_def)
  from prec rhs tree val show ?thesis by simp
qed

subsection \<open>Domain errors of the evaluator\<close>



subsection \<open>Unknown function names\<close>

text \<open>
  Claim C2. For a \<^verbatim>\<open>FunctionCall\<close> whose name is none of \<^verbatim>\<open>sqrt\<close>, \<^verbatim>\<open>log10\<close>,
  \<^verbatim>\<open>sin\<close>, \<^verbatim>\<open>cos\<close>, the claim expects \<^verbatim>\<open>to_sympy_expr\<close> to fail with
  \<^verbatim>\<open>ParserError\<close> "Not a valid function". The code writes
  \<^verbatim>\<open>raise ParserError("Not a valid function", -1)\<close>, and the constructor takes one
  argument: what is raised is the \<^verbatim>\<open>TypeError\<close> of the call, not a \<^verbatim>\<open>ParserError\<close>.
  The evaluator fails with \<^verbatim>\<open>UnknownFunctionError\<close> on the same tree.
\<close>

theorem unknown_function_to_sympy_expr:
  "\<forall>name parameter v. name \<notin> set known_functions \<longrightarrow>
      to_sympy_expr (FunctionCall name parameter)
        = Inl (TypeError ''ParserError.__init__() takes 2 positional arguments'')
      \<and> to_sympy_expr (FunctionCall name parameter) \<noteq> Inl (ParserError ''Not a valid function'')
      \<and> evaluate (FunctionCall name parameter) v = Inl (UnknownFunctionError name)"
  by (simp add: known_functions_def new_ParserError_def evaluate_def)

theorem unknown_function_to_sympy_expr_witness:
  "''foo'' \<notin> set known_functions
   \<and> to_sympy_expr (FunctionCall ''foo'' (NumberLiteral (PyInt 5)))
        = Inl (TypeError ''ParserError.__init__() takes 2 positional arguments'')
   \<and> to_sympy_expr (FunctionCall ''foo'' (NumberLiteral (PyInt 5)))
        \<noteq> Inl (ParserError ''Not a valid function'')
   \<and> evaluate (FunctionCall ''foo'' (NumberLiteral (PyInt 5))) (PyInt 0)
        = Inl (UnknownFunctionError ''foo'')"
proof -
  have h: "''foo'' \<notin> set known_functions"
    by (simp add: known_functions_def)
  from unknown_function_to_sympy_expr[rule_format, OF h] h show ?thesis
    by blast
qed

subsection \<open>A group that is not closed by a right parenthesis\<close>

text \<open>
  Claim C10. When the expression inside a parenthesised group has been parsed and the
  next token exists and is not \<^verbatim>\<open>rparen\<close>, \<^verbatim>\<open>parseParen\<close> raises \<^verbatim>\<open>ParserError\<close>
  "Expected right parenthesis", and so does \<^verbatim>\<open>parse\<close> on a token list that opens with
  such a group; \<^verbatim>\<open>(3 4)\<close> and \<^verbatim>\<open>(3.\<close> are such inputs. The message is not in the
  spec's list of \<^verbatim>\<open>ParserError\<close> messages.
\<close>

theorem expected_right_parenthesis:
  "(\<forall>tokens curToken node c.
      parseExpression tokens 0 curToken = Inr (node, c) \<longrightarrow>
      c < length tokens \<longrightarrow> tok_type (tokens ! c) \<noteq> T_rparen \<longrightarrow>
      parseParen tokens curToken = Inl (ParserError ''Expected right parenthesis''))
   \<and> (\<forall>v rest node c.
      parseExpression (Token T_lparen v # rest) 0 1 = Inr (node, c) \<longrightarrow>
      c < length (Token T_lparen v # rest) \<longrightarrow>
      tok_type ((Token T_lparen v # rest) ! c) \<noteq> T_rparen \<longrightarrow>
      parse (Token T_lparen v # rest) = Inl (ParserError ''Expected right parenthesis''))
   \<and> parse_expression ''(3 4)'' = Inl (ParserError ''Expected right parenthesis'')
   \<and> parse_expression ''(3.'' = Inl (ParserError ''Expected right parenthesis'')
   \<and> ''Expected right parenthesis'' \<notin> set documented_ParserError_messages"
proof (intro conjI allI impI)
  fix tokens curToken node c
  assume "parseExpression tokens 0 curToken = Inr (node, c)" "c < length tokens"
    "tok_type (tokens ! c) \<noteq> T_rparen"
  then show "parseParen tokens curToken = Inl (ParserError ''Expected right parenthesis'')"
    by (simp add: parseParen.simps)
next
  fix v rest node c
  assume a: "parseExpression (Token T_lparen v # rest) 0 1 = Inr (node, c)"
    "c < length (Token T_lparen v # rest)"
    "tok_type ((Token T_lparen v # rest) ! c) \<noteq> T_rparen"
  then have "parseParen (Token T_lparen v # rest) 1 = Inl (ParserError ''Expected right parenthesis'')"
    by (simp add: parseParen.simps)
  then have "parseExpression (Token T_lparen v # rest) 0 0
      = Inl (ParserError ''Expected right parenthesis'')"
    by (simp add: parseExpression.simps[of _ _ 0] prefixFunctions_def)
  then show "parse (Token T_lparen v # rest) = Inl (ParserError ''Expected right parenthesis'')"
    by (simp add: parse_def)
next
  show "parse_expression ''(3 4)'' = Inl (ParserError ''Expected right parenthesis'')"
    by code_simp
next
  show "parse_expression ''(3.'' = Inl (ParserError ''Expected right parenthesis'')"
    by code_simp
next
  show "''Expected right parenthesis'' \<notin> set documented_ParserError_messages"
    by (simp add: documented_ParserError_messages_def)
qed

lemma Lexer_paren_3_4:
  "Lexer ''(3 4)'' ''x'' = Inr [Token T_lparen (VStr ''(''), Token T_number (VNum (PyInt 3)),
     Token T_number (VNum (PyInt 4)), Token T_rparen (VStr '')'')]"
  by code_simp

lemma parseExpression_3_4:
  "parseExpression [Token T_lparen (VStr ''(''), Token T_number (VNum (PyInt 3)),
     Token T_number (VNum (PyInt 4)), Token T_rparen (VStr '')'')] 0 1
   = Inr (NumberLiteral (PyInt 3), 2)"
  by code_simp

theorem expected_right_parenthesis_witness:
  "parseExpression [Token T_lparen (VStr ''(''), Token T_number (VNum (PyInt 3)),
     Token T_number (VNum (PyInt 4)), Token T_rparen (VStr '')'')] 0 1
     = Inr (NumberLiteral (PyInt 3), 2)
   \<and> (2::nat) < length [Token T_lparen (VStr ''(''), Token T_number (VNum (PyInt 3)),
     Token T_number (VNum (PyInt 4)), Token T_rparen (VStr '')'')]
   \<and> tok_type ([Token T_lparen (VStr ''(''), Token T_number (VNum (PyInt 3)),
     Token T_number (VNum (PyInt 4)), Token T_rparen (VStr '')'')] ! 2) \<noteq> T_rparen
   \<and> parseParen [Token T_lparen (VStr ''(''), Token T_number (VNum (PyInt 3)),
     Token T_number (VNum (PyInt 4)), Token T_rparen (VStr '')'')] 1
     = Inl (ParserError ''Expected right parenthesis'')
   \<and> parse [Token T_lparen (VStr ''(''), Token T_number (VNum (PyInt 3)),
     Token T_number (VNum (PyInt 4)), Token T_rparen (VStr '')'')]
     = Inl (ParserError ''Expected right parenthesis'')"
proof -
  let ?ts = "[Token T_lparen (VStr ''(''), Token T_number (VNum (PyInt 3)),
     Token T_number (VNum (PyInt 4)), Token T_rparen (VStr '')'')]"
  have h1: "parseExpression ?ts 0 1 = Inr (NumberLiteral (PyInt 3), 2)"
    by (rule parseExpression_3_4)
  have h2: "(2::nat) < length ?ts" by simp
  have h3: "tok_type (?ts ! 2) \<noteq> T_rparen" by simp
  note t = expected_right_parenthesis
  from t[THEN conjunct1, rule_format, OF h1 h2 h3]
    t[THEN conjunct2, THEN conjunct1, rule_format, OF h1 h2 h3] h1 h2 h3
  show ?thesis by blast
qed

subsection \<open>Prefix minus against the grammar of the spec\<close>

text \<open>
  Claim C4 says that prefix \<^verbatim>\<open>-\<close> binds tighter than every binary operator, so that
  \<^verbatim>\<open>-3+4\<close> is \<open>(-3)+4 = 1\<close>. The parser gives the tree of \<open>-(3+4)\<close>, which
  evaluates to \<open>-7\<close>.
\<close>

theorem prefix_minus_base_precedence_counterexample:
  "parse_expression ''-3+4'' =
      Inr (PrefixExpression ''-''
            (InfixExpression (NumberLiteral (PyInt 3)) ''+'' (NumberLiteral (PyInt 4))))
   \<and> parse_expression ''-3+4'' \<noteq>
      Inr (InfixExpression (PrefixExpression ''-'' (NumberLiteral (PyInt 3))) ''+''
            (NumberLiteral (PyInt 4)))
   \<and> evaluate (PrefixExpression ''-''
        (InfixExpression (NumberLiteral (PyInt 3)) ''+'' (NumberLiteral (PyInt 4)))) (PyInt 0)
      = Inr (PyInt (- 7))
   \<and> evaluate (PrefixExpression ''-''
        (InfixExpression (NumberLiteral (PyInt 3)) ''+'' (NumberLiteral (PyInt 4)))) (PyInt 0)
      \<noteq> Inr (PyInt 1)"
proof -
  have p: "parse_expression ''-3+4'' =
      Inr (PrefixExpression ''-''
            (InfixExpression (NumberLiteral (PyInt 3)) ''+'' (NumberLiteral (PyInt 4))))"
    by code_simp
  have e: "evaluate (PrefixExpression ''-''
        (InfixExpression (NumberLiteral (PyInt 3)) ''+'' (NumberLiteral (PyInt 4)))) (PyInt 0)
      = Inr (PyInt (- 7))"
    by (simp add: evaluate_def evaluate_number_def py_add_def py_binop_def)
  from p e show ?thesis by simp
qed

text \<open>
  Claim C4, amended. Prefix \<^verbatim>\<open>-\<close> binds looser than every binary operator: for each
  operator token \<open>ty\<close> handled by \<^verbatim>\<open>parseInfixExpression\<close> (\<^verbatim>\<open>+ - * / ^\<close>), the tokens
  of \<^verbatim>\<open>- a ty b\<close> parse to \<open>PrefixExpression - (a ty b)\<close>; \<^verbatim>\<open>-3+4\<close> evaluates to
  \<open>-7\<close> under every binding.
\<close>

theorem prefix_minus_binds_loosest:
  "(\<forall>ty a v b p.
      precedences ty = Some p \<longrightarrow> infixFunctions ty = Some parseInfixExpression_f \<longrightarrow>
      parse [Token T_minus (VStr ''-''), Token T_number (VNum a), Token ty (VStr v),
             Token T_number (VNum b)]
        = Inr (PrefixExpression ''-'' (InfixExpression (NumberLiteral a) v (NumberLiteral b))))
   \<and> (\<forall>v. \<exists>tree. parse_expression ''-3+4'' = Inr tree \<and> evaluate tree v = Inr (PyInt (- 7)))"
proof (intro conjI allI impI)
  fix ty a v b p
  assume "precedences ty = Some p" "infixFunctions ty = Some parseInfixExpression_f"
  then show "parse [Token T_minus (VStr ''-''), Token T_number (VNum a), Token ty (VStr v),
             Token T_number (VNum b)]
        = Inr (PrefixExpression ''-'' (InfixExpression (NumberLiteral a) v (NumberLiteral b)))"
    by (cases ty) (simp_all add: parse_def parser_simps parser_tables)
next
  fix v
  have p: "parse_expression ''-3+4'' =
      Inr (PrefixExpression ''-''
            (InfixExpression (NumberLiteral (PyInt 3)) ''+'' (NumberLiteral (PyInt 4))))"
    by code_simp
  then show "\<exists>tree. parse_expression ''-3+4'' = Inr tree \<and> evaluate tree v = Inr (PyInt (- 7))"
    by (simp add: evaluate_def evaluate_number_def py_add_def py_binop_def)
qed

theorem prefix_minus_binds_loosest_witness:
  "precedences T_asterisk = Some 2 \<and> infixFunctions T_asterisk = Some parseInfixExpression_f
   \<and> parse [Token T_minus (VStr ''-''), Token T_number (VNum (PyInt 3)),
             Token T_asterisk (VStr ''*''), Token T_number (VNum (PyInt 4))]
        = Inr (PrefixExpression ''-''
                (InfixExpression (NumberLiteral (PyInt 3)) ''*'' (NumberLiteral (PyInt 4))))"
proof -
  have h1: "precedences T_asterisk = Some 2" by (simp add: precedences_def)
  have h2: "infixFunctions T_asterisk = Some parseInfixExpression_f"
    by (simp add: infixFunctions_def)
  from prefix_minus_binds_loosest[THEN conjunct1, rule_format, OF h1 h2] h1 h2
  show ?thesis by blast
qed


subsection \<open>The sampler\<close>

lemma safe_evaluate_loop_length:
  "safe_evaluate_loop func xs y = Inr y' \<Longrightarrow> length y' = length y + length xs"
proof (induction xs arbitrary: y)
  case Nil
  then show ?case by simp
next
  case (Cons x xs)
  from Cons.prems show ?case
    by (auto split: sum.splits error.splits dest!: Cons.IH)
qed

lemma safe_evaluate_length:
  "safe_evaluate func xs = Inr y \<Longrightarrow> length y = length xs"
  by (auto simp: safe_evaluate_def dest: safe_evaluate_loop_length)

lemma safe_evaluate_loop_absorbs:
  "(\<And>x. x \<in> set xs \<Longrightarrow> value_or_EvaluatorError (func (PyFloat x))) \<Longrightarrow>
   safe_evaluate_loop func xs y = Inr (y @ map (\<lambda>x. sample_value (func (PyFloat x))) xs)"
proof (induction xs arbitrary: y)
  case Nil
  then show ?case by simp
next
  case (Cons x xs)
  have ok: "value_or_EvaluatorError (func (PyFloat x))"
    by (rule Cons.prems) simp
  have rest: "safe_evaluate_loop func xs z = Inr (z @ map (\<lambda>x. sample_value (func (PyFloat x))) xs)"
    for z
    by (rule Cons.IH) (simp add: Cons.prems)
  show ?case
  proof (cases "func (PyFloat x)")
    case (Inr v)
    then show ?thesis by (simp add: rest sample_value_def)
  next
    case (Inl e)
    with ok show ?thesis
      by (cases e) (simp_all add: rest sample_value_def value_or_EvaluatorError_def)
  qed
qed

lemma safe_evaluate_absorbs:
  "(\<And>x. x \<in> set xs \<Longrightarrow> value_or_EvaluatorError (func (PyFloat x))) \<Longrightarrow>
   safe_evaluate func xs = Inr (map (\<lambda>x. sample_value (func (PyFloat x))) xs)"
  using safe_evaluate_loop_absorbs[of xs func "[]"] by (simp add: safe_evaluate_def)

lemma safe_evaluate_loop_propagates:
  assumes "\<And>x'. x' \<in> set pre \<Longrightarrow> value_or_EvaluatorError (func (PyFloat x'))"
    and "func (PyFloat x) = Inl e" and "\<not> is_EvaluatorError e"
  shows "safe_evaluate_loop func (pre @ x # post) y = Inl e"
  using assms(1)
proof (induction pre arbitrary: y)
  case Nil
  from assms(2,3) show ?case by (cases e) simp_all
next
  case (Cons a pre)
  have ok: "value_or_EvaluatorError (func (PyFloat a))"
    by (rule Cons.prems) simp
  have rest: "safe_evaluate_loop func (pre @ x # post) z = Inl e" for z
    by (rule Cons.IH) (simp add: Cons.prems)
  show ?case
  proof (cases "func (PyFloat a)")
    case (Inr v)
    then show ?thesis by (simp add: rest)
  next
    case (Inl e')
    with ok show ?thesis
      by (cases e') (simp_all add: rest value_or_EvaluatorError_def)
  qed
qed

lemma np_linspace_nonneg: "0 \<le> n \<Longrightarrow> np_linspace a b n = Inr (linspace a b (nat n))"
  by (simp add: np_linspace_def)

lemma adaptive_sampling_absorbs:
  assumes ok: "\<And>x. value_or_EvaluatorError (func (PyFloat x))" and n: "(0::int) \<le> num_points"
  shows "\<exists>x y. adaptive_sampling func x_min x_max num_points must tolerance = Inr (x, y)
           \<and> y = map (\<lambda>x. sample_value (func (PyFloat x))) x"
  by (simp add: adaptive_sampling_def np_linspace_nonneg[OF n] safe_evaluate_absorbs ok Let_def)

text \<open>
  Claim C1, amended. \<^verbatim>\<open>safe_evaluate\<close> maps every evaluation that fails with an
  \<^verbatim>\<open>EvaluatorError\<close> to the undefined marker and goes on: when the evaluator function
  only returns or fails with \<^verbatim>\<open>EvaluatorError\<close>, \<^verbatim>\<open>safe_evaluate\<close> returns one y-value
  per point and \<^verbatim>\<open>adaptive_sampling\<close> (with \<open>num_points \<ge> 0\<close>) returns a complete
  \<open>(x, y)\<close> pair. Any other exception, at the first point where it occurs, leaves
  \<^verbatim>\<open>safe_evaluate\<close> unchanged.
\<close>

theorem sampler_absorbs_EvaluatorError_only:
  "(\<forall>func xs. (\<forall>x. value_or_EvaluatorError (func (PyFloat x))) \<longrightarrow>
       safe_evaluate func xs = Inr (map (\<lambda>x. sample_value (func (PyFloat x))) xs))
   \<and> (\<forall>func x_min x_max num_points must tolerance.
        (\<forall>x. value_or_EvaluatorError (func (PyFloat x))) \<longrightarrow> 0 \<le> num_points \<longrightarrow>
        (\<exists>x y. adaptive_sampling func x_min x_max num_points must tolerance = Inr (x, y)
            \<and> y = map (\<lambda>x. sample_value (func (PyFloat x))) x))
   \<and> (\<forall>func pre x post e.
        (\<forall>x'. x' \<in> set pre \<longrightarrow> value_or_EvaluatorError (func (PyFloat x'))) \<longrightarrow>
        func (PyFloat x) = Inl e \<longrightarrow> \<not> is_EvaluatorError e \<longrightarrow>
        safe_evaluate func (pre @ x # post) = Inl e)"
proof (intro conjI allI impI)
  fix func xs
  assume "\<forall>x. value_or_EvaluatorError (func (PyFloat x))"
  then show "safe_evaluate func xs = Inr (map (\<lambda>x. sample_value (func (PyFloat x))) xs)"
    by (intro safe_evaluate_absorbs) simp
next
  fix func x_min x_max num_points must tolerance
  assume "\<forall>x. value_or_EvaluatorError (func (PyFloat x))" "(0::int) \<le> num_points"
  then show "\<exists>x y. adaptive_sampling func x_min x_max num_points must tolerance = Inr (x, y)
            \<and> y = map (\<lambda>x. sample_value (func (PyFloat x))) x"
    by (intro adaptive_sampling_absorbs) simp_all
next
  fix func pre x post e
  assume "\<forall>x'. x' \<in> set pre \<longrightarrow> value_or_EvaluatorError (func (PyFloat x'))"
    "func (PyFloat x) = Inl e" "\<not> is_EvaluatorError e"
  then show "safe_evaluate func (pre @ x # post) = Inl e"
    unfolding safe_evaluate_def by (intro safe_evaluate_loop_propagates) simp_all
qed

lemma grid_3: "np_union1d (linspace (- 100) 100 3) [0] = [- 100, 0, 100]"
  by (simp add: np_union1d_def np_unique_def linspace_def upt_rec)

text \<open>
  Claim C1 says that every failure kind becomes NaN, \<^verbatim>\<open>UnknownFunctionError\<close> included.
  Sampling the tree of \<^verbatim>\<open>foo(x)\<close> raises \<^verbatim>\<open>UnknownFunctionError\<close> instead of returning.
\<close>

theorem sampler_unknown_function_counterexample:
  "parse_expression ''foo(x)'' = Inr (FunctionCall ''foo'' (Variable ''x''))
   \<and> adaptive_sampling (evaluator_function (FunctionCall ''foo'' (Variable ''x'')))
         (- 1) 1 3 [] (1 / 1000)
       = Inl (UnknownFunctionError ''foo'')"
proof -
  have p: "parse_expression ''foo(x)'' = Inr (FunctionCall ''foo'' (Variable ''x''))"
    by code_simp
  have "safe_evaluate (evaluator_function (FunctionCall ''foo'' (Variable ''x''))) [- 100, 0, 100]
      = Inl (UnknownFunctionError ''foo'')"
    by (simp add: safe_evaluate_def evaluator_function_def evaluate_def)
  then have "adaptive_sampling (evaluator_function (FunctionCall ''foo'' (Variable ''x'')))
         (- 1) 1 3 [] (1 / 1000) = Inl (UnknownFunctionError ''foo'')"
    by (simp add: adaptive_sampling_def np_linspace_def grid_3 Let_def)
  with p show ?thesis by simp
qed

lemma one_over_x_ok:
  "value_or_EvaluatorError
     (evaluator_function (InfixExpression (NumberLiteral (PyInt 1)) ''/'' (Variable ''x'')) (PyFloat x))"
  by (simp add: value_or_EvaluatorError_def evaluator_function_def evaluate_def
      evaluate_number_def evaluate_variable_def py_truediv_def)

text \<open>An instance of the amended claim C1: \<open>1/x\<close> fails at 0 with an \<^verbatim>\<open>EvaluatorError\<close> only.\<close>

theorem sampler_absorbs_EvaluatorError_only_witness:
  "(\<forall>x. value_or_EvaluatorError
      (evaluator_function (InfixExpression (NumberLiteral (PyInt 1)) ''/'' (Variable ''x''))
        (PyFloat x)))
   \<and> safe_evaluate
        (evaluator_function (InfixExpression (NumberLiteral (PyInt 1)) ''/'' (Variable ''x'')))
        [- 1, 0, 2]
      = Inr [Some (PyFloat (- 1)), None, Some (PyFloat (1 / 2))]
   \<and> (0::int) \<le> 3
   \<and> (\<exists>x y. adaptive_sampling
        (evaluator_function (InfixExpression (NumberLiteral (PyInt 1)) ''/'' (Variable ''x'')))
        (- 1) 1 3 [] (1 / 1000) = Inr (x, y))
   \<and> evaluator_function (FunctionCall ''foo'' (Variable ''x'')) (PyFloat 0)
        = Inl (UnknownFunctionError ''foo'')
   \<and> \<not> is_EvaluatorError (UnknownFunctionError ''foo'')
   \<and> safe_evaluate (evaluator_function (FunctionCall ''foo'' (Variable ''x''))) ([] @ 0 # [1])
        = Inl (UnknownFunctionError ''foo'')"
proof -
  let ?f = "evaluator_function (InfixExpression (NumberLiteral (PyInt 1)) ''/'' (Variable ''x''))"
  let ?g = "evaluator_function (FunctionCall ''foo'' (Variable ''x''))"
  have ok: "\<forall>x. value_or_EvaluatorError (?f (PyFloat x))"
    by (simp add: one_over_x_ok)
  have n: "(0::int) \<le> 3" by simp
  have g0: "?g (PyFloat 0) = Inl (UnknownFunctionError ''foo'')"
    by (simp add: evaluator_function_def evaluate_def)
  have ne: "\<not> is_EvaluatorError (UnknownFunctionError ''foo'')" by simp
  have pre: "\<forall>x'. x' \<in> set [] \<longrightarrow> value_or_EvaluatorError (?g (PyFloat x'))" by simp
  note t = sampler_absorbs_EvaluatorError_only
  have a: "safe_evaluate ?f [- 1, 0, 2] = Inr (map (\<lambda>x. sample_value (?f (PyFloat x))) [- 1, 0, 2])"
    by (rule t[THEN conjunct1, THEN spec[where x = "?f"], THEN spec[where x = "[- 1, 0, 2]"],
          THEN mp, OF ok])
  have a': "map (\<lambda>x. sample_value (?f (PyFloat x))) [- 1, 0, 2]
      = [Some (PyFloat (- 1)), None, Some (PyFloat (1 / 2))]"
    by (simp add: sample_value_def evaluator_function_def evaluate_def
      evaluate_number_def evaluate_variable_def py_truediv_def py_eq_def)
  have b: "\<exists>x y. adaptive_sampling ?f (- 1) 1 3 [] (1 / 1000) = Inr (x, y)"
    using t[THEN conjunct2, THEN conjunct1, THEN spec[where x = "?f"], THEN spec[where x = "- 1"],
        THEN spec[where x = 1], THEN spec[where x = 3], THEN spec[where x = "[]"],
        THEN spec[where x = "1 / 1000"], THEN mp, THEN mp, OF ok n]
    by blast
  have c: "safe_evaluate ?g ([] @ 0 # [1]) = Inl (UnknownFunctionError ''foo'')"
    by (rule t[THEN conjunct2, THEN conjunct2, THEN spec[where x = "?g"], THEN spec[where x = "[]"],
          THEN spec[where x = 0], THEN spec[where x = "[1]"],
          THEN spec[where x = "UnknownFunctionError ''foo''"], THEN mp, THEN mp, THEN mp,
          OF pre g0 ne])
  from ok a a' n b g0 ne c show ?thesis by simp
qed

lemma sorted_distinct_strict: "sorted xs \<Longrightarrow> distinct xs \<Longrightarrow> sorted_wrt (<) (xs :: real list)"
  by (simp add: strict_sorted_iff)

lemma np_unique_strict: "sorted_wrt (<) (np_unique xs)"
  by (simp add: np_unique_def sorted_distinct_strict)

lemma set_np_union1d: "set (np_union1d xs ys) = set xs \<union> set ys"
  by (simp add: np_union1d_def np_unique_def)

lemma np_sort_np_union1d: "np_sort (np_union1d xs ys) = np_union1d xs ys"
  by (simp add: np_sort_def np_union1d_def np_unique_def sorted_sort_id)

lemma adaptive_sampling_Inr:
  assumes "adaptive_sampling func x_min x_max num_points must tolerance = Inr (x', y')"
  obtains x y where
    "0 \<le> num_points"
    "x = np_union1d (linspace (min x_min (- 100)) (max x_max 100) (nat num_points)) (must @ [0])"
    "safe_evaluate func x = Inr y"
    "x' = np_union1d x (refine_points x (np_where_gt (np_abs (np_diff y)) tolerance))"
    "safe_evaluate func x' = Inr y'"
  using assms
  by (auto simp: adaptive_sampling_def np_linspace_def Let_def np_sort_np_union1d
      split: if_splits sum.splits)

text \<open>
  Claim C5. Whenever \<^verbatim>\<open>adaptive_sampling\<close> returns \<open>(x, y)\<close>, \<open>x\<close> is strictly
  ascending, \<open>y\<close> has the length of \<open>x\<close>, and every element of
  \<^verbatim>\<open>must_evaluate_points\<close> and 0 occur in \<open>x\<close>.
\<close>

theorem sampler_monotone:
  "\<forall>func x_min x_max num_points must tolerance x y.
     adaptive_sampling func x_min x_max num_points must tolerance = Inr (x, y) \<longrightarrow>
     sorted_wrt (<) x \<and> length y = length x \<and> set must \<subseteq> set x \<and> 0 \<in> set x"
proof (intro allI impI)
  fix func x_min x_max num_points must tolerance x' y'
  assume "adaptive_sampling func x_min x_max num_points must tolerance = Inr (x', y')"
  then obtain x y where
    x: "x = np_union1d (linspace (min x_min (- 100)) (max x_max 100) (nat num_points)) (must @ [0])"
    and x': "x' = np_union1d x (refine_points x (np_where_gt (np_abs (np_diff y)) tolerance))"
    and y': "safe_evaluate func x' = Inr y'"
    by (rule adaptive_sampling_Inr)
  have "sorted_wrt (<) x'"
    by (simp add: x' np_union1d_def np_unique_strict)
  moreover have "length y' = length x'"
    using y' by (rule safe_evaluate_length)
  moreover have "set must \<union> {0} \<subseteq> set x'"
    by (auto simp: x x' set_np_union1d)
  ultimately show "sorted_wrt (<) x' \<and> length y' = length x' \<and> set must \<subseteq> set x'
      \<and> 0 \<in> set x'"
    by auto
qed

lemma length_linspace: "length (linspace a b n) = n"
  by (simp add: linspace_def)

lemma nth_linspace: "k < n \<Longrightarrow> linspace a b n ! k = a + real k * ((b - a) / real (n - 1))"
  by (simp add: linspace_def)

lemma linspace_10_ends: "linspace a b 10 ! 0 = a" "linspace a b 10 ! 9 = b"
  by (simp_all add: nth_linspace diff_divide_distrib)

lemma linspace_10_between:
  assumes "a < b" "0 < k" "k < 9"
  shows "a < linspace a b 10 ! k" "linspace a b 10 ! k < b"
proof -
  have c: "0 < (b - a) / 9" using assms(1) by simp
  have k: "linspace a b 10 ! k = a + real k * ((b - a) / 9)"
    using assms(3) by (simp add: nth_linspace)
  from assms(2) c show "a < linspace a b 10 ! k"
    by (simp add: k)
  have "real k * ((b - a) / 9) < 9 * ((b - a) / 9)"
    using assms(3) c by (intro mult_strict_right_mono) simp_all
  then show "linspace a b 10 ! k < b"
    by (simp add: k)
qed

lemma linspace_distinct:
  assumes "a < b"
  shows "distinct (linspace a b 10)"
proof -
  have c: "(b - a) / 9 \<noteq> 0" using assms by simp
  have "inj_on (\<lambda>i. a + real i * ((b - a) / 9)) (set [0..<10])"
    using c by (auto simp: inj_on_def)
  then show ?thesis
    by (simp add: linspace_def distinct_map)
qed

lemma length_np_diff: "length (np_diff y) = length y - 1"
  by (induction y rule: np_diff.induct) simp_all

lemma nth_np_diff:
  "i + 1 < length y \<Longrightarrow>
   np_diff y ! i = (case (y ! i, y ! (i + 1)) of
                     (Some u, Some v) \<Rightarrow> Some (py_sub v u)
                   | _ \<Rightarrow> None)"
proof (induction y arbitrary: i rule: np_diff.induct)
  case (1 a b ys)
  then show ?case by (cases i) simp_all
qed simp_all

lemma set_np_where_gt:
  "set (np_where_gt (np_abs (np_diff y)) tolerance)
     = {i. i + 1 < length y \<and> high_curvature_pair y tolerance i}"
proof -
  have "i < length y - 1 \<Longrightarrow>
        (case np_abs (np_diff y) ! i of Some d \<Rightarrow> tolerance < d | None \<Rightarrow> False)
          = high_curvature_pair y tolerance i" for i
    by (simp add: np_abs_def length_np_diff nth_np_diff high_curvature_pair_def
        split: option.splits)
  then show ?thesis
    by (auto simp: np_where_gt_def np_abs_def length_np_diff)
qed

lemma set_refine_points:
  "set (refine_points x high_curvature)
     = (\<Union>i \<in> set high_curvature. set (linspace (x ! i) (x ! (i + 1)) 10))"
  by (simp add: refine_points_def)

text \<open>
  Claim C9, amended. Let \<open>x\<close> be the first grid and \<open>y\<close> its y-values. The points the
  sampler returns are those of \<open>x\<close> together with, for each consecutive pair whose
  y-difference exceeds the tolerance, the values \<^verbatim>\<open>np.linspace(x[i], x[i+1], 10)\<close>; the
  returned y-values are one evaluation of the refined grid. The ten values of
  \<^verbatim>\<open>linspace\<close> are evenly spaced, begin with \<open>x[i]\<close> and end with \<open>x[i+1]\<close>; when
  \<open>x[i] < x[i+1]\<close> they are distinct and the other eight lie strictly between.
\<close>

theorem sampler_single_refinement:
  "(\<forall>func x_min x_max num_points must tolerance x' y'.
      adaptive_sampling func x_min x_max num_points must tolerance = Inr (x', y') \<longrightarrow>
      (\<exists>x y.
          x = np_union1d (linspace (min x_min (- 100)) (max x_max 100) (nat num_points))
                (must @ [0])
        \<and> sorted_wrt (<) x
        \<and> safe_evaluate func x = Inr y
        \<and> set x' = set x \<union>
             (\<Union>i \<in> {i. i + 1 < length x \<and> high_curvature_pair y tolerance i}.
                 set (linspace (x ! i) (x ! (i + 1)) 10))
        \<and> sorted_wrt (<) x'
        \<and> safe_evaluate func x' = Inr y'))
   \<and> (\<forall>a b. length (linspace a b 10) = 10
          \<and> linspace a b 10 ! 0 = a \<and> linspace a b 10 ! 9 = b
          \<and> (\<forall>k. k < 10 \<longrightarrow> linspace a b 10 ! k = a + real k * ((b - a) / 9)))
   \<and> (\<forall>a b. a < b \<longrightarrow>
          distinct (linspace a b 10)
          \<and> (\<forall>k. 0 < k \<longrightarrow> k < 9 \<longrightarrow> a < linspace a b 10 ! k \<and> linspace a b 10 ! k < b))"
proof -
  have refine: "\<exists>x y.
          x = np_union1d (linspace (min x_min (- 100)) (max x_max 100) (nat num_points))
                (must @ [0])
        \<and> sorted_wrt (<) x
        \<and> safe_evaluate func x = Inr y
        \<and> set x' = set x \<union>
             (\<Union>i \<in> {i. i + 1 < length x \<and> high_curvature_pair y tolerance i}.
                 set (linspace (x ! i) (x ! (i + 1)) 10))
        \<and> sorted_wrt (<) x'
        \<and> safe_evaluate func x' = Inr y'"
    if "adaptive_sampling func x_min x_max num_points must tolerance = Inr (x', y')"
    for func x_min x_max num_points must tolerance x' y'
  proof -
    from that obtain x y where
      x: "x = np_union1d (linspace (min x_min (- 100)) (max x_max 100) (nat num_points))
                (must @ [0])"
      and y: "safe_evaluate func x = Inr y"
      and x': "x' = np_union1d x (refine_points x (np_where_gt (np_abs (np_diff y)) tolerance))"
      and y': "safe_evaluate func x' = Inr y'"
      by (rule adaptive_sampling_Inr)
    have len: "length y = length x"
      using y by (rule safe_evaluate_length)
    have "set x' = set x \<union>
             (\<Union>i \<in> {i. i + 1 < length x \<and> high_curvature_pair y tolerance i}.
                 set (linspace (x ! i) (x ! (i + 1)) 10))"
      by (simp add: x' set_np_union1d set_refine_points set_np_where_gt len)
    moreover have "sorted_wrt (<) x" "sorted_wrt (<) x'"
      by (simp_all add: x x' np_union1d_def np_unique_strict)
    ultimately show ?thesis
      using x y y' by blast
  qed
  have spaced: "length (linspace a b 10) = 10
          \<and> linspace a b 10 ! 0 = a \<and> linspace a b 10 ! 9 = b
          \<and> (\<forall>k. k < 10 \<longrightarrow> linspace a b 10 ! k = a + real k * ((b - a) / 9))" for a b
    by (simp add: length_linspace linspace_10_ends nth_linspace)
  have between: "distinct (linspace a b 10)
          \<and> (\<forall>k. 0 < k \<longrightarrow> k < 9 \<longrightarrow> a < linspace a b 10 ! k \<and> linspace a b 10 ! k < b)"
    if "a < b" for a b
    using that linspace_distinct[of a b] linspace_10_between[of a b] by blast
  have A: "\<forall>func x_min x_max num_points must tolerance x' y'.
      adaptive_sampling func x_min x_max num_points must tolerance = Inr (x', y') \<longrightarrow>
      (\<exists>x y.
          x = np_union1d (linspace (min x_min (- 100)) (max x_max 100) (nat num_points))
                (must @ [0])
        \<and> sorted_wrt (<) x
        \<and> safe_evaluate func x = Inr y
        \<and> set x' = set x \<union>
             (\<Union>i \<in> {i. i + 1 < length x \<and> high_curvature_pair y tolerance i}.
                 set (linspace (x ! i) (x ! (i + 1)) 10))
        \<and> sorted_wrt (<) x'
        \<and> safe_evaluate func x' = Inr y')"
    by (intro allI impI refine)
  have B: "\<forall>a b. length (linspace a b 10) = 10
          \<and> linspace a b 10 ! 0 = a \<and> linspace a b 10 ! 9 = b
          \<and> (\<forall>k. k < 10 \<longrightarrow> linspace a b 10 ! k = a + real k * ((b - a) / 9))"
    by (intro allI spaced)
  have C: "\<forall>a b. a < b \<longrightarrow>
          distinct (linspace a b 10)
          \<and> (\<forall>k. 0 < k \<longrightarrow> k < 9 \<longrightarrow> a < linspace a b 10 ! k \<and> linspace a b 10 ! k < b)"
    by (intro allI impI between)
  show ?thesis
    by (rule conjI[OF A conjI[OF B C]])
qed

lemma jump_tree_parse: "parse_expression ''x*(x+100)'' = Inr jump_tree"
  unfolding jump_tree_def by code_simp

lemma jump_tree_value:
  "evaluator_function jump_tree (PyFloat x) = Inr (PyFloat (x * (x + 100)))"
  by (simp add: jump_tree_def evaluator_function_def evaluate_def evaluate_variable_def
      evaluate_number_def py_mul_def py_add_def py_binop_def)

lemma jump_tree_ok: "value_or_EvaluatorError (evaluator_function jump_tree (PyFloat x))"
  by (simp add: jump_tree_value value_or_EvaluatorError_def)

lemma jump_safe_evaluate:
  "safe_evaluate (evaluator_function jump_tree) xs
     = Inr (map (\<lambda>x. Some (PyFloat (x * (x + 100)))) xs)"
proof -
  have "safe_evaluate (evaluator_function jump_tree) xs
     = Inr (map (\<lambda>x. sample_value (evaluator_function jump_tree (PyFloat x))) xs)"
    by (rule safe_evaluate_absorbs) (rule jump_tree_ok)
  then show ?thesis
    by (simp add: jump_tree_value sample_value_def)
qed

lemma jump_first_pass:
  "safe_evaluate (evaluator_function jump_tree) [- 100, 0, 100]
     = Inr [Some (PyFloat 0), Some (PyFloat 0), Some (PyFloat 20000)]"
  by (simp add: jump_safe_evaluate)

lemma jump_high_curvature:
  "np_where_gt (np_abs (np_diff [Some (PyFloat 0), Some (PyFloat 0), Some (PyFloat 20000)]))
     (1 / 1000) = [1]"
  by (simp add: np_where_gt_def np_abs_def py_sub_def py_binop_def upt_rec)

lemma jump_refined_grid:
  "np_union1d [- 100, 0, 100] (refine_points [- 100, 0, 100] [1])
     = [- 100, 0, 100 / 9, 200 / 9, 100 / 3, 400 / 9, 500 / 9, 200 / 3, 700 / 9, 800 / 9, 100]"
  by (simp add: np_union1d_def np_unique_def refine_points_def linspace_def upt_rec)

lemma adaptive_sampling_eval:
  assumes "0 \<le> num_points"
    and "np_union1d (linspace (min x_min (- 100)) (max x_max 100) (nat num_points)) (must @ [0]) = x"
    and "safe_evaluate func x = Inr y"
    and "np_where_gt (np_abs (np_diff y)) tolerance = high_curvature"
    and "np_union1d x (refine_points x high_curvature) = x'"
    and "safe_evaluate func x' = Inr y'"
  shows "adaptive_sampling func x_min x_max num_points must tolerance = Inr (x', y')"
  using assms
  by (simp add: adaptive_sampling_def np_linspace_def Let_def np_sort_np_union1d)

lemma jump_sampling:
  "adaptive_sampling (evaluator_function jump_tree) (- 1) 1 3 [] (1 / 1000)
     = Inr ([- 100, 0, 100 / 9, 200 / 9, 100 / 3, 400 / 9, 500 / 9, 200 / 3, 700 / 9, 800 / 9, 100],
            map (\<lambda>x. Some (PyFloat (x * (x + 100))))
              [- 100, 0, 100 / 9, 200 / 9, 100 / 3, 400 / 9, 500 / 9, 200 / 3, 700 / 9, 800 / 9, 100])"
proof (rule adaptive_sampling_eval)
  show "(0::int) \<le> 3" by simp
  show "np_union1d (linspace (min (- 1) (- 100)) (max 1 100) (nat 3)) ([] @ [0]) = [- 100, 0, 100]"
    by (simp add: grid_3)
  show "safe_evaluate (evaluator_function jump_tree) [- 100, 0, 100]
     = Inr [Some (PyFloat 0), Some (PyFloat 0), Some (PyFloat 20000)]"
    by (rule jump_first_pass)
  show "np_where_gt (np_abs (np_diff [Some (PyFloat 0), Some (PyFloat 0), Some (PyFloat 20000)]))
     (1 / 1000) = [1]"
    by (rule jump_high_curvature)
  show "np_union1d [- 100, 0, 100] (refine_points [- 100, 0, 100] [1])
     = [- 100, 0, 100 / 9, 200 / 9, 100 / 3, 400 / 9, 500 / 9, 200 / 3, 700 / 9, 800 / 9, 100]"
    by (rule jump_refined_grid)
  show "safe_evaluate (evaluator_function jump_tree)
      [- 100, 0, 100 / 9, 200 / 9, 100 / 3, 400 / 9, 500 / 9, 200 / 3, 700 / 9, 800 / 9, 100]
    = Inr (map (\<lambda>x. Some (PyFloat (x * (x + 100))))
        [- 100, 0, 100 / 9, 200 / 9, 100 / 3, 400 / 9, 500 / 9, 200 / 3, 700 / 9, 800 / 9, 100])"
    by (rule jump_safe_evaluate)
qed

text \<open>
  Claim C9 says that ten additional x-values are inserted for each such pair. For
  \<open>x * (x + 100)\<close> on the grid \<open>[-100, 0, 100]\<close> one pair exceeds the tolerance, and
  the refined grid has \<open>3 + 8\<close> points, not \<open>3 + 10\<close>.
\<close>

theorem sampler_ten_additional_counterexample:
  "parse_expression ''x*(x+100)'' = Inr jump_tree
   \<and> safe_evaluate (evaluator_function jump_tree) [- 100, 0, 100]
       = Inr [Some (PyFloat 0), Some (PyFloat 0), Some (PyFloat 20000)]
   \<and> np_where_gt (np_abs (np_diff [Some (PyFloat 0), Some (PyFloat 0), Some (PyFloat 20000)]))
        (1 / 1000) = [1]
   \<and> map_sum id fst (adaptive_sampling (evaluator_function jump_tree) (- 1) 1 3 [] (1 / 1000))
       = Inr [- 100, 0, 100 / 9, 200 / 9, 100 / 3, 400 / 9, 500 / 9, 200 / 3, 700 / 9, 800 / 9, 100]
   \<and> length [- 100, 0, 100 / 9, 200 / 9, 100 / 3, 400 / 9, 500 / 9, 200 / 3, 700 / 9, 800 / 9,
         100 :: real] = 3 + 8
   \<and> length [- 100, 0, 100 / 9, 200 / 9, 100 / 3, 400 / 9, 500 / 9, 200 / 3, 700 / 9, 800 / 9,
         100 :: real] \<noteq> 3 + 10"
  by (simp add: jump_tree_parse jump_first_pass jump_high_curvature jump_sampling
      del: np_diff.simps)

text \<open>An instance of the amended claim C9.\<close>

theorem sampler_single_refinement_witness:
  "adaptive_sampling (evaluator_function jump_tree) (- 1) 1 3 [] (1 / 1000)
     = Inr ([- 100, 0, 100 / 9, 200 / 9, 100 / 3, 400 / 9, 500 / 9, 200 / 3, 700 / 9, 800 / 9, 100],
            map (\<lambda>x. Some (PyFloat (x * (x + 100))))
              [- 100, 0, 100 / 9, 200 / 9, 100 / 3, 400 / 9, 500 / 9, 200 / 3, 700 / 9, 800 / 9, 100])
   \<and> (\<exists>x y.
          x = np_union1d (linspace (min (- 1) (- 100)) (max 1 100) (nat 3)) ([] @ [0])
        \<and> sorted_wrt (<) x
        \<and> safe_evaluate (evaluator_function jump_tree) x = Inr y
        \<and> set [- 100, 0, 100 / 9, 200 / 9, 100 / 3, 400 / 9, 500 / 9, 200 / 3, 700 / 9, 800 / 9, 100]
            = set x \<union>
             (\<Union>i \<in> {i. i + 1 < length x \<and> high_curvature_pair y (1 / 1000) i}.
                 set (linspace (x ! i) (x ! (i + 1)) 10)))
   \<and> (0::real) < 100
   \<and> distinct (linspace 0 100 10)
   \<and> 0 < linspace 0 100 10 ! 1 \<and> linspace 0 100 10 ! 1 < 100"
proof -
  note t = sampler_single_refinement
  have b: "(0::real) < 100" by simp
  from t[THEN conjunct1, rule_format, OF jump_sampling]
  have 1: "\<exists>x y.
          x = np_union1d (linspace (min (- 1) (- 100)) (max 1 100) (nat 3)) ([] @ [0])
        \<and> sorted_wrt (<) x
        \<and> safe_evaluate (evaluator_function jump_tree) x = Inr y
        \<and> set [- 100, 0, 100 / 9, 200 / 9, 100 / 3, 400 / 9, 500 / 9, 200 / 3, 700 / 9, 800 / 9, 100]
            = set x \<union>
             (\<Union>i \<in> {i. i + 1 < length x \<and> high_curvature_pair y (1 / 1000) i}.
                 set (linspace (x ! i) (x ! (i + 1)) 10))"
    by blast
  from t[THEN conjunct2, THEN conjunct2, rule_format, OF b]
  have 2: "distinct (linspace 0 100 10)"
    and 3: "0 < linspace 0 100 10 ! 1 \<and> linspace 0 100 10 ! 1 < 100"
    by simp_all
  from jump_sampling 1 b 2 3 show ?thesis by blast
qed

text \<open>The constant function \<open>1\<close> with the required point \<open>50\<close>.\<close>

lemma constant_sampling:
  "adaptive_sampling (evaluator_function (NumberLiteral (PyInt 1))) (- 1) 1 3 [50] (1 / 1000)
     = Inr ([- 100, 0, 50, 100], [Some (PyInt 1), Some (PyInt 1), Some (PyInt 1), Some (PyInt 1)])"
proof (rule adaptive_sampling_eval)
  show "(0::int) \<le> 3" by simp
  show "np_union1d (linspace (min (- 1) (- 100)) (max 1 100) (nat 3)) ([50] @ [0])
      = [- 100, 0, 50, 100]"
    by (simp add: np_union1d_def np_unique_def linspace_def upt_rec)
  show "safe_evaluate (evaluator_function (NumberLiteral (PyInt 1))) [- 100, 0, 50, 100]
      = Inr [Some (PyInt 1), Some (PyInt 1), Some (PyInt 1), Some (PyInt 1)]"
    by (simp add: safe_evaluate_def evaluator_function_def evaluate_def evaluate_number_def)
  show "np_where_gt (np_abs (np_diff [Some (PyInt 1), Some (PyInt 1), Some (PyInt 1), Some (PyInt 1)]))
      (1 / 1000) = []"
    by (simp add: np_where_gt_def np_abs_def py_sub_def py_binop_def upt_rec)
  show "np_union1d [- 100, 0, 50, 100] (refine_points [- 100, 0, 50, 100] []) = [- 100, 0, 50, 100]"
    by (simp add: np_union1d_def np_unique_def refine_points_def)
  show "safe_evaluate (evaluator_function (NumberLiteral (PyInt 1))) [- 100, 0, 50, 100]
      = Inr [Some (PyInt 1), Some (PyInt 1), Some (PyInt 1), Some (PyInt 1)]"
    by (simp add: safe_evaluate_def evaluator_function_def evaluate_def evaluate_number_def)
qed

text \<open>An instance of claim C5.\<close>

theorem sampler_monotone_witness:
  "adaptive_sampling (evaluator_function (NumberLiteral (PyInt 1))) (- 1) 1 3 [50] (1 / 1000)
     = Inr ([- 100, 0, 50, 100], [Some (PyInt 1), Some (PyInt 1), Some (PyInt 1), Some (PyInt 1)])
   \<and> sorted_wrt (<) [- 100, 0, 50, 100 :: real]
   \<and> length [Some (PyInt 1), Some (PyInt 1), Some (PyInt 1), Some (PyInt 1)]
       = length [- 100, 0, 50, 100 :: real]
   \<and> set [50] \<subseteq> set [- 100, 0, 50, 100 :: real]
   \<and> 0 \<in> set [- 100, 0, 50, 100 :: real]"
  using sampler_monotone[rule_format, OF constant_sampling] constant_sampling
  by blast


subsection \<open>An unclosed group at the end of the input\<close>

lemmas parser_induct = parseExpression_parse_while_parseImplicitMultiplication_parsePrefixExpression_parseInfixExpression_parseParen_parseFunction.induct

text \<open>
  A trailing \<^verbatim>\<open>rparen\<close> that a successful parse consumed can be dropped: every parser
  function returns the same tree and cursor on the shorter token list.
\<close>

lemma rparen_tables:
  "prefixFunctions T_rparen = None" "infixFunctions T_rparen = None" "precedences T_rparen = None"
  by (simp_all add: prefixFunctions_def infixFunctions_def precedences_def)

lemma drop_rparen:
  assumes r: "tok_type r = T_rparen"
  shows "parseExpression T p cur = Inr (n, c) \<Longrightarrow> T = tokens @ [r] \<Longrightarrow>
           parseExpression tokens p cur = Inr (n, c)"
    and "parse_while T p left cur = Inr (n, c) \<Longrightarrow> T = tokens @ [r] \<Longrightarrow>
           parse_while tokens p left cur = Inr (n, c)"
    and "parseImplicitMultiplication T left cur = Inr (n, c) \<Longrightarrow> T = tokens @ [r] \<Longrightarrow>
           parseImplicitMultiplication tokens left cur = Inr (n, c)"
    and "parsePrefixExpression T token cur = Inr (n, c) \<Longrightarrow> T = tokens @ [r] \<Longrightarrow>
           parsePrefixExpression tokens token cur = Inr (n, c)"
    and "parseInfixExpression T left token cur = Inr (n, c) \<Longrightarrow> T = tokens @ [r] \<Longrightarrow>
           parseInfixExpression tokens left token cur = Inr (n, c)"
    and "parseParen T cur = Inr (n, c) \<Longrightarrow> T = tokens @ [r] \<Longrightarrow>
           parseParen tokens cur = Inr (n, c)"
    and "parseFunction T token cur = Inr (n, c) \<Longrightarrow> T = tokens @ [r] \<Longrightarrow>
           parseFunction tokens token cur = Inr (n, c)"
proof (induct T p cur and T p left cur and T left cur and T token cur and T left token cur
      and T cur and T token cur arbitrary: n c and n c and n c and n c and n c and n c and n c
      rule: parser_induct)
  case (1 T precedence curToken)
  note res = "1.prems"(1) and T = "1.prems"(2)
  from res have lt: "\<not> length T \<le> curToken"
    by (auto simp: parseExpression.simps[of T] split: if_splits)
  from res lt obtain pf where pf: "prefixFunctions (tok_type (T ! curToken)) = Some pf"
    by (auto simp: parseExpression.simps[of T] Let_def split: option.splits)
  from res lt pf obtain l c2 where
    h0: "(case pf of parseNumber_f \<Rightarrow> parseNumber (T ! curToken) (Suc curToken)
          | parseVariable_f \<Rightarrow> parseVariable (T ! curToken) (Suc curToken)
          | parsePrefixExpression_f \<Rightarrow> parsePrefixExpression T (T ! curToken) (Suc curToken)
          | plus_lambda_f \<Rightarrow> parseExpression T 0 (Suc curToken)
          | parseParen_f \<Rightarrow> parseParen T (Suc curToken)
          | parseFunction_f \<Rightarrow> parseFunction T (T ! curToken) (Suc curToken)) = Inr (l, c2)"
    and w: "parse_while T precedence l c2 = Inr (n, c)"
    by (auto simp: parseExpression.simps[of T] Let_def split: sum.splits)
  from h0 have
    h: "(case pf of parseNumber_f \<Rightarrow> parseNumber (T ! curToken) (curToken + 1)
          | parseVariable_f \<Rightarrow> parseVariable (T ! curToken) (curToken + 1)
          | parsePrefixExpression_f \<Rightarrow> parsePrefixExpression T (T ! curToken) (curToken + 1)
          | plus_lambda_f \<Rightarrow> parseExpression T 0 (curToken + 1)
          | parseParen_f \<Rightarrow> parseParen T (curToken + 1)
          | parseFunction_f \<Rightarrow> parseFunction T (T ! curToken) (curToken + 1)) = Inr (l, c2)"
    unfolding Suc_eq_plus1 .
  have "curToken \<noteq> length tokens"
    using pf by (auto simp: T r rparen_tables)
  with lt have lt': "curToken < length tokens" and nth: "T ! curToken = tokens ! curToken"
    by (auto simp: T nth_append)
  have h': "(case pf of parseNumber_f \<Rightarrow> parseNumber (tokens ! curToken) (Suc curToken)
          | parseVariable_f \<Rightarrow> parseVariable (tokens ! curToken) (Suc curToken)
          | parsePrefixExpression_f \<Rightarrow>
              parsePrefixExpression tokens (tokens ! curToken) (Suc curToken)
          | plus_lambda_f \<Rightarrow> parseExpression tokens 0 (Suc curToken)
          | parseParen_f \<Rightarrow> parseParen tokens (Suc curToken)
          | parseFunction_f \<Rightarrow> parseFunction tokens (tokens ! curToken) (Suc curToken))
        = Inr (l, c2)"
  proof (cases pf)
    case parseNumber_f
    with h0 show ?thesis by (simp add: nth)
  next
    case parseVariable_f
    with h0 show ?thesis by (simp add: nth)
  next
    case parsePrefixExpression_f
    with h0 "1.hyps"(1)[OF lt refl refl pf _ _ T, of l c2] show ?thesis by (simp add: nth)
  next
    case plus_lambda_f
    with h0 "1.hyps"(2)[OF lt refl refl pf _ _ T, of l c2] show ?thesis by simp
  next
    case parseParen_f
    with h0 "1.hyps"(3)[OF lt refl refl pf _ _ T, of l c2] show ?thesis by simp
  next
    case parseFunction_f
    with h0 "1.hyps"(4)[OF lt refl refl pf _ _ T, of l c2] show ?thesis by (simp add: nth)
  qed
  have w': "parse_while tokens precedence l c2 = Inr (n, c)"
    by (rule "1.hyps"(5)[OF lt refl refl pf h refl w T])
  from pf have pf': "prefixFunctions (tok_type (tokens ! curToken)) = Some pf"
    by (simp add: nth)
  from lt' pf' h' w' show ?case
    by (simp add: parseExpression.simps[of tokens] Let_def)
next
  case (2 T precedence left curToken)
  note res = "2.prems"(1) and T = "2.prems"(2)
  show ?case
  proof (cases "curToken < length T \<and> precedence < getPrecedence T curToken")
    case False
    with res have nc: "n = left" "c = curToken"
      by (auto simp: parse_while.simps[of T])
    have "\<not> (curToken < length tokens \<and> precedence < getPrecedence tokens curToken)"
      using False by (auto simp: T nth_append getPrecedence_def)
    then show ?thesis
      by (subst parse_while.simps) (auto simp: nc)
  next
    case True
    define c1 where "c1 = (if tok_type (T ! curToken) \<notin> set implicitMultiplications
        then curToken + 1 else curToken)"
    from res True obtain f where f: "infixFunctions (tok_type (T ! curToken)) = Some f"
      by (auto simp: parse_while.simps[of T] Let_def split: option.splits)
    from res True f obtain l c2 where
      h: "(case f of
             parseInfixExpression_f \<Rightarrow> parseInfixExpression T left (T ! curToken) c1
           | parseImplicitMultiplication_f \<Rightarrow> parseImplicitMultiplication T left c1)
          = Inr (l, c2)"
      and w: "parse_while T precedence l c2 = Inr (n, c)"
      unfolding c1_def
      by (auto simp: parse_while.simps[of T] Let_def split: sum.splits)
    have "curToken \<noteq> length tokens"
      using f by (auto simp: T r rparen_tables)
    with True have lt': "curToken < length tokens" and nth: "T ! curToken = tokens ! curToken"
      by (auto simp: T nth_append)
    have prec: "getPrecedence T curToken = getPrecedence tokens curToken"
      by (simp add: getPrecedence_def nth)
    have h': "(case f of
             parseInfixExpression_f \<Rightarrow> parseInfixExpression tokens left (tokens ! curToken) c1
           | parseImplicitMultiplication_f \<Rightarrow> parseImplicitMultiplication tokens left c1)
          = Inr (l, c2)"
    proof (cases f)
      case parseInfixExpression_f
      with h "2.hyps"(1)[OF True refl c1_def f _ _ T, of l c2] show ?thesis by (simp add: nth)
    next
      case parseImplicitMultiplication_f
      with h "2.hyps"(2)[OF True refl c1_def f _ _ T, of l c2] show ?thesis by simp
    qed
    have w': "parse_while tokens precedence l c2 = Inr (n, c)"
      by (rule "2.hyps"(3)[OF True refl c1_def f h refl w T])
    from f have f': "infixFunctions (tok_type (tokens ! curToken)) = Some f"
      by (simp add: nth)
    from True have p': "precedence < getPrecedence tokens curToken"
      by (simp add: prec)
    have c1': "c1 = (if tok_type (tokens ! curToken) \<notin> set implicitMultiplications
        then curToken + 1 else curToken)"
      by (simp add: c1_def nth)
    from lt' p' f' h'[unfolded c1'] w' show ?thesis
      by (subst parse_while.simps) (simp add: Let_def)
  qed
next
  case (3 T left curToken)
  from "3.prems"(1) obtain p right where
    pa: "precedences T_asterisk = Some p"
    and e: "parseExpression T p curToken = Inr (right, c)"
    and n: "n = InfixExpression left ''*'' right"
    by (auto simp: parseImplicitMultiplication.simps[of T] split: option.splits sum.splits)
  from "3.hyps"[OF pa e "3.prems"(2)] pa n show ?case
    by (simp add: parseImplicitMultiplication.simps[of tokens])
next
  case (4 T token curToken)
  from "4.prems"(1) obtain v operand where
    v: "tok_value token = VStr v"
    and e: "parseExpression T 0 curToken = Inr (operand, c)"
    and n: "n = PrefixExpression v operand"
    by (auto simp: parsePrefixExpression.simps[of T] split: tokval.splits sum.splits)
  from "4.hyps"[OF v e "4.prems"(2)] v n show ?case
    by (simp add: parsePrefixExpression.simps[of tokens])
next
  case (5 T left token curToken)
  from "5.prems"(1) obtain v p where
    v: "tok_value token = VStr v" and p: "precedences (tok_type token) = Some p"
    by (auto simp: parseInfixExpression.simps[of T] split: tokval.splits option.splits)
  show ?case
  proof (cases "tok_type token = T_exponent")
    case True
    with "5.prems"(1) v p obtain right where
      e: "parseExpression T (p - 1) curToken = Inr (right, c)"
      and n: "n = InfixExpression left v right"
      by (auto simp: parseInfixExpression.simps[of T] split: sum.splits)
    from "5.hyps"(1)[OF v p True e "5.prems"(2)] v p True n show ?thesis
      by (simp add: parseInfixExpression.simps[of tokens])
  next
    case False
    with "5.prems"(1) v p obtain right where
      e: "parseExpression T p curToken = Inr (right, c)"
      and n: "n = InfixExpression left v right"
      by (auto simp: parseInfixExpression.simps[of T] split: sum.splits)
    from "5.hyps"(2)[OF v p False e "5.prems"(2)] v p False n show ?thesis
      by (simp add: parseInfixExpression.simps[of tokens])
  qed
next
  case (6 T curToken)
  note T = "6.prems"(2)
  from "6.prems"(1) obtain c' where
    e: "parseExpression T 0 curToken = Inr (n, c')"
    and ok: "\<not> (c' < length T \<and> tok_type (T ! c') \<noteq> T_rparen)"
    and c: "c = c' + 1"
    by (auto simp: parseParen.simps[of T] split: sum.splits if_splits)
  have ok': "\<not> (c' < length tokens \<and> tok_type (tokens ! c') \<noteq> T_rparen)"
    using ok by (auto simp: T nth_append)
  from "6.hyps"[OF e T] ok' c show ?case
    by (auto simp: parseParen.simps[of tokens])
next
  case (7 T token curToken)
  note T = "7.prems"(2)
  from "7.prems"(1) have lt: "\<not> length T \<le> curToken"
    and lp: "\<not> tok_type (T ! curToken) \<noteq> T_lparen"
    by (auto simp: parseFunction.simps[of T] split: if_splits)
  from "7.prems"(1) lt lp obtain v parameter where
    v: "tok_value token = VStr v"
    and e: "parseParen T (curToken + 1) = Inr (parameter, c)"
    and n: "n = FunctionCall v parameter"
    by (auto simp: parseFunction.simps[of T] split: tokval.splits sum.splits)
  have "curToken \<noteq> length tokens"
    using lp by (auto simp: T r)
  with lt have lt': "\<not> length tokens \<le> curToken" and nth: "T ! curToken = tokens ! curToken"
    by (auto simp: T nth_append)
  from lp have lp': "tok_type (tokens ! curToken) = T_lparen"
    by (simp add: nth)
  from "7.hyps"[OF lt lp v e T] lt' lp' v n show ?case
    by (simp add: parseFunction.simps[of tokens])
qed

text \<open>
  Claim C8. A token sequence that parses once a closing \<^verbatim>\<open>rparen\<close> is appended at its
  end parses without it, silently and to the same tree: \<^verbatim>\<open>parseParen\<close> only raises
  when a token other than \<^verbatim>\<open>rparen\<close> follows the group, and advances the cursor past
  the end of the input otherwise. \<^verbatim>\<open>(3+4\<close> and \<^verbatim>\<open>2*(x+1\<close> parse to the trees of
  \<^verbatim>\<open>(3+4)\<close> and \<^verbatim>\<open>2*(x+1)\<close>.
\<close>

theorem missing_closing_rparen_tolerated:
  "(\<forall>tokens r tree.
      tok_type r = T_rparen \<longrightarrow> parse (tokens @ [r]) = Inr tree \<longrightarrow> parse tokens = Inr tree)
   \<and> parse_expression ''(3+4)''
       = Inr (InfixExpression (NumberLiteral (PyInt 3)) ''+'' (NumberLiteral (PyInt 4)))
   \<and> parse_expression ''(3+4'' = parse_expression ''(3+4)''
   \<and> parse_expression ''2*(x+1)''
       = Inr (InfixExpression (NumberLiteral (PyInt 2)) ''*''
               (InfixExpression (Variable ''x'') ''+'' (NumberLiteral (PyInt 1))))
   \<and> parse_expression ''2*(x+1'' = parse_expression ''2*(x+1)''"
proof -
  have general: "parse tokens = Inr tree"
    if r: "tok_type r = T_rparen" and p: "parse (tokens @ [r]) = Inr tree" for tokens r tree
  proof -
    from p obtain c where
      e: "parseExpression (tokens @ [r]) 0 0 = Inr (tree, c)"
      and c: "\<not> c < length (tokens @ [r])"
      by (auto simp: parse_def split: sum.splits if_splits)
    from drop_rparen(1)[OF r e refl] c show ?thesis
      by (simp add: parse_def)
  qed
  have a1: "parse_expression ''(3+4)''
       = Inr (InfixExpression (NumberLiteral (PyInt 3)) ''+'' (NumberLiteral (PyInt 4)))"
    by code_simp
  have a2: "parse_expression ''(3+4''
       = Inr (InfixExpression (NumberLiteral (PyInt 3)) ''+'' (NumberLiteral (PyInt 4)))"
    by code_simp
  have b1: "parse_expression ''2*(x+1)''
       = Inr (InfixExpression (NumberLiteral (PyInt 2)) ''*''
               (InfixExpression (Variable ''x'') ''+'' (NumberLiteral (PyInt 1))))"
    by code_simp
  have b2: "parse_expression ''2*(x+1''
       = Inr (InfixExpression (NumberLiteral (PyInt 2)) ''*''
               (InfixExpression (Variable ''x'') ''+'' (NumberLiteral (PyInt 1))))"
    by code_simp
  have G: "\<forall>tokens r tree.
      tok_type r = T_rparen \<longrightarrow> parse (tokens @ [r]) = Inr tree \<longrightarrow> parse tokens = Inr tree"
  proof (intro allI impI)
    fix tokens r tree
    assume "tok_type r = T_rparen" "parse (tokens @ [r]) = Inr tree"
    then show "parse tokens = Inr tree" by (rule general)
  qed
  have a3: "parse_expression ''(3+4'' = parse_expression ''(3+4)''"
    by (rule trans[OF a2 a1[symmetric]])
  have b3: "parse_expression ''2*(x+1'' = parse_expression ''2*(x+1)''"
    by (rule trans[OF b2 b1[symmetric]])
  show ?thesis
    by (rule conjI[OF G conjI[OF a1 conjI[OF a3 conjI[OF b1 b3]]]])
qed

text \<open>An instance of claim C8: the tokens of \<^verbatim>\<open>sin(3+x\<close>, a test of the repository.\<close>

lemma parse_sin_closed:
  "parse ([Token T_function (VStr ''sin''), Token T_lparen (VStr ''(''),
           Token T_number (VNum (PyInt 3)), Token T_plus (VStr ''+''),
           Token T_variable (VStr ''x'')] @ [Token T_rparen (VStr '')'')])
     = Inr (FunctionCall ''sin''
             (InfixExpression (NumberLiteral (PyInt 3)) ''+'' (Variable ''x'')))"
  by code_simp

theorem missing_closing_rparen_tolerated_witness:
  "tok_type (Token T_rparen (VStr '')'')) = T_rparen
   \<and> parse ([Token T_function (VStr ''sin''), Token T_lparen (VStr ''(''),
           Token T_number (VNum (PyInt 3)), Token T_plus (VStr ''+''),
           Token T_variable (VStr ''x'')] @ [Token T_rparen (VStr '')'')])
       = Inr (FunctionCall ''sin''
               (InfixExpression (NumberLiteral (PyInt 3)) ''+'' (Variable ''x'')))
   \<and> parse [Token T_function (VStr ''sin''), Token T_lparen (VStr ''(''),
           Token T_number (VNum (PyInt 3)), Token T_plus (VStr ''+''),
           Token T_variable (VStr ''x'')]
       = Inr (FunctionCall ''sin''
               (InfixExpression (NumberLiteral (PyInt 3)) ''+'' (Variable ''x'')))"
proof -
  have r: "tok_type (Token T_rparen (VStr '')'')) = T_rparen" by simp
  note o = missing_closing_rparen_tolerated[THEN conjunct1, rule_format, OF r parse_sin_closed]
  show ?thesis
    by (rule conjI[OF r conjI[OF parse_sin_closed o]])
qed


subsection \<open>Prefix minus\<close>

lemma shift_cursor_simps [simp]:
  "shift_cursor (Inl e) = Inl e" "shift_cursor (Inr (node, c)) = Inr (node, Suc c)"
  by (simp_all add: shift_cursor_def)

lemma parseNumber_shift: "parseNumber token (Suc c) = shift_cursor (parseNumber token c)"
  by (simp add: parseNumber_def split: tokval.splits)

lemma parseVariable_shift: "parseVariable token (Suc c) = shift_cursor (parseVariable token c)"
  by (simp add: parseVariable_def split: tokval.splits)

lemma getPrecedence_Cons: "getPrecedence (t # tokens) (Suc c) = getPrecedence tokens c"
  by (simp add: getPrecedence_def)

text \<open>
  One more token in front of the list moves every parser function by one position.
\<close>

lemma parser_shift:
  "parseExpression (t # tokens) p (Suc cur) = shift_cursor (parseExpression tokens p cur)"
  "parse_while (t # tokens) p left (Suc cur) = shift_cursor (parse_while tokens p left cur)"
  "parseImplicitMultiplication (t # tokens) left (Suc cur)
     = shift_cursor (parseImplicitMultiplication tokens left cur)"
  "parsePrefixExpression (t # tokens) token (Suc cur)
     = shift_cursor (parsePrefixExpression tokens token cur)"
  "parseInfixExpression (t # tokens) left token (Suc cur)
     = shift_cursor (parseInfixExpression tokens left token cur)"
  "parseParen (t # tokens) (Suc cur) = shift_cursor (parseParen tokens cur)"
  "parseFunction (t # tokens) token (Suc cur) = shift_cursor (parseFunction tokens token cur)"
proof (induct tokens p cur and tokens p left cur and tokens left cur and tokens token cur
      and tokens left token cur and tokens cur and tokens token cur rule: parser_induct)
  case (1 tokens precedence curToken)
  show ?case
  proof (cases "length tokens \<le> curToken")
    case True
    then show ?thesis
      by (simp add: parseExpression.simps[of _ _ curToken] parseExpression.simps[of _ _ "Suc curToken"])
  next
    case lt: False
    show ?thesis
    proof (cases "prefixFunctions (tok_type (tokens ! curToken))")
      case None
      with lt show ?thesis
        by (simp add: parseExpression.simps[of _ _ curToken]
            parseExpression.simps[of _ _ "Suc curToken"])
    next
      case (Some pf)
      let ?h = "\<lambda>ts c. (case pf of
            parseNumber_f \<Rightarrow> parseNumber (tokens ! curToken) c
          | parseVariable_f \<Rightarrow> parseVariable (tokens ! curToken) c
          | parsePrefixExpression_f \<Rightarrow> parsePrefixExpression ts (tokens ! curToken) c
          | plus_lambda_f \<Rightarrow> parseExpression ts 0 c
          | parseParen_f \<Rightarrow> parseParen ts c
          | parseFunction_f \<Rightarrow> parseFunction ts (tokens ! curToken) c)"
      have h: "?h (t # tokens) (Suc (Suc curToken)) = shift_cursor (?h tokens (Suc curToken))"
      proof (cases pf)
        case parseNumber_f
        then show ?thesis by (simp add: parseNumber_shift)
      next
        case parseVariable_f
        then show ?thesis by (simp add: parseVariable_shift)
      next
        case parsePrefixExpression_f
        with "1.hyps"(1)[OF lt refl refl Some] show ?thesis by simp
      next
        case plus_lambda_f
        with "1.hyps"(2)[OF lt refl refl Some] show ?thesis by simp
      next
        case parseParen_f
        with "1.hyps"(3)[OF lt refl refl Some] show ?thesis by simp
      next
        case parseFunction_f
        with "1.hyps"(4)[OF lt refl refl Some] show ?thesis by simp
      qed
      have L: "parseExpression (t # tokens) precedence (Suc curToken) =
          (case ?h (t # tokens) (Suc (Suc curToken)) of
             Inl e \<Rightarrow> Inl e
           | Inr (left, c2) \<Rightarrow> parse_while (t # tokens) precedence left c2)"
        using lt Some
        by (subst parseExpression.simps)
           (simp add: Let_def cong del: PrefixFunction.case_cong_weak)
      have R: "parseExpression tokens precedence curToken =
          (case ?h tokens (Suc curToken) of
             Inl e \<Rightarrow> Inl e
           | Inr (left, c2) \<Rightarrow> parse_while tokens precedence left c2)"
        using lt Some
        by (subst parseExpression.simps)
           (simp add: Let_def cong del: PrefixFunction.case_cong_weak)
      show ?thesis
      proof (cases "?h tokens (Suc curToken)")
        case (Inl e)
        with h show ?thesis by (simp add: L R)
      next
        case (Inr b)
        obtain l c2 where b: "b = (l, c2)" by (cases b)
        from "1.hyps"(5)[OF lt refl refl Some Inr[unfolded Suc_eq_plus1] b[symmetric]]
        have "parse_while (t # tokens) precedence l (Suc c2)
            = shift_cursor (parse_while tokens precedence l c2)" .
        with h Inr b show ?thesis by (simp add: L R)
      qed
    qed
  qed
next
  case (2 tokens precedence left curToken)
  show ?case
  proof (cases "curToken < length tokens \<and> precedence < getPrecedence tokens curToken")
    case False
    then show ?thesis
      by (auto simp: parse_while.simps[of "t # tokens" precedence left "Suc curToken"]
          parse_while.simps[of tokens precedence left curToken] getPrecedence_Cons)
  next
    case True
    define c1 where "c1 = (if tok_type (tokens ! curToken) \<notin> set implicitMultiplications
        then curToken + 1 else curToken)"
    show ?thesis
    proof (cases "infixFunctions (tok_type (tokens ! curToken))")
      case None
      with True show ?thesis
        by (simp add: parse_while.simps[of "t # tokens" precedence left "Suc curToken"]
            parse_while.simps[of tokens precedence left curToken] getPrecedence_Cons Let_def)
    next
      case (Some f)
      let ?h = "\<lambda>ts c. (case f of
            parseInfixExpression_f \<Rightarrow> parseInfixExpression ts left (tokens ! curToken) c
          | parseImplicitMultiplication_f \<Rightarrow> parseImplicitMultiplication ts left c)"
      have h: "?h (t # tokens) (Suc c1) = shift_cursor (?h tokens c1)"
      proof (cases f)
        case parseInfixExpression_f
        with "2.hyps"(1)[OF True refl c1_def Some] show ?thesis by simp
      next
        case parseImplicitMultiplication_f
        with "2.hyps"(2)[OF True refl c1_def Some] show ?thesis by simp
      qed
      have c1': "(if tok_type (tokens ! curToken) \<notin> set implicitMultiplications
          then Suc curToken + 1 else Suc curToken) = Suc c1"
        by (simp add: c1_def)
      have L: "parse_while (t # tokens) precedence left (Suc curToken) =
          (case ?h (t # tokens) (Suc c1) of
             Inl e \<Rightarrow> Inl e
           | Inr (left', c2) \<Rightarrow> parse_while (t # tokens) precedence left' c2)"
        using True Some
        by (subst parse_while.simps)
           (simp add: getPrecedence_Cons Let_def c1_def cong del: InfixFunction.case_cong_weak)
      have R: "parse_while tokens precedence left curToken =
          (case ?h tokens c1 of
             Inl e \<Rightarrow> Inl e
           | Inr (left', c2) \<Rightarrow> parse_while tokens precedence left' c2)"
        using True Some
        by (subst parse_while.simps)
           (simp add: Let_def c1_def cong del: InfixFunction.case_cong_weak)
      show ?thesis
      proof (cases "?h tokens c1")
        case (Inl e)
        with h show ?thesis by (simp add: L R)
      next
        case (Inr b)
        obtain l c2 where b: "b = (l, c2)" by (cases b)
        from "2.hyps"(3)[OF True refl c1_def Some Inr b[symmetric]]
        have "parse_while (t # tokens) precedence l (Suc c2)
            = shift_cursor (parse_while tokens precedence l c2)" .
        with h Inr b show ?thesis by (simp add: L R)
      qed
    qed
  qed
next
  case (3 tokens left curToken)
  then show ?case
    by (auto simp: parseImplicitMultiplication.simps[of "t # tokens"]
        parseImplicitMultiplication.simps[of tokens] split: option.splits sum.splits)
next
  case (4 tokens token curToken)
  then show ?case
    by (auto simp: parsePrefixExpression.simps[of "t # tokens"]
        parsePrefixExpression.simps[of tokens] split: tokval.splits sum.splits)
next
  case (5 tokens left token curToken)
  then show ?case
    by (auto simp: parseInfixExpression.simps[of "t # tokens"]
        parseInfixExpression.simps[of tokens] split: tokval.splits option.splits sum.splits)
next
  case (6 tokens curToken)
  then show ?case
    by (auto simp: parseParen.simps[of "t # tokens"] parseParen.simps[of tokens]
        split: sum.splits)
next
  case (7 tokens token curToken)
  then show ?case
    by (auto simp: parseFunction.simps[of "t # tokens"] parseFunction.simps[of tokens]
        split: tokval.splits sum.splits)
qed

text \<open>
  When \<^verbatim>\<open>parseExpression\<close> returns, the condition of its \<^verbatim>\<open>while\<close> loop is false at the
  cursor it returns.
\<close>

lemma parser_stops:
  "parseExpression tokens p cur = Inr (n, c) \<Longrightarrow>
     \<not> (c < length tokens \<and> p < getPrecedence tokens c)"
  "parse_while tokens p left cur = Inr (n, c) \<Longrightarrow>
     \<not> (c < length tokens \<and> p < getPrecedence tokens c)"
  "parseImplicitMultiplication tokens left cur = parseImplicitMultiplication tokens left cur"
  "parsePrefixExpression tokens token cur = parsePrefixExpression tokens token cur"
  "parseInfixExpression tokens left token cur = parseInfixExpression tokens left token cur"
  "parseParen tokens cur = parseParen tokens cur"
  "parseFunction tokens token cur = parseFunction tokens token cur"
proof (induct tokens p cur and tokens p left cur and tokens left cur and tokens token cur
      and tokens left token cur and tokens cur and tokens token cur
      arbitrary: n c and n c rule: parser_induct)
  case (1 tokens precedence curToken)
  note res = "1.prems"
  from res have lt: "\<not> length tokens \<le> curToken"
    by (auto simp: parseExpression.simps[of tokens] split: if_splits)
  from res lt obtain pf where pf: "prefixFunctions (tok_type (tokens ! curToken)) = Some pf"
    by (auto simp: parseExpression.simps[of tokens] Let_def split: option.splits)
  from res lt pf obtain l c2 where
    h0: "(case pf of parseNumber_f \<Rightarrow> parseNumber (tokens ! curToken) (Suc curToken)
          | parseVariable_f \<Rightarrow> parseVariable (tokens ! curToken) (Suc curToken)
          | parsePrefixExpression_f \<Rightarrow>
              parsePrefixExpression tokens (tokens ! curToken) (Suc curToken)
          | plus_lambda_f \<Rightarrow> parseExpression tokens 0 (Suc curToken)
          | parseParen_f \<Rightarrow> parseParen tokens (Suc curToken)
          | parseFunction_f \<Rightarrow> parseFunction tokens (tokens ! curToken) (Suc curToken))
        = Inr (l, c2)"
    and w: "parse_while tokens precedence l c2 = Inr (n, c)"
    by (auto simp: parseExpression.simps[of tokens] Let_def split: sum.splits)
  show ?case
    by (rule "1.hyps"(5)[OF lt refl refl pf h0[unfolded Suc_eq_plus1] refl w])
next
  case (2 tokens precedence left curToken)
  note res = "2.prems"
  show ?case
  proof (cases "curToken < length tokens \<and> precedence < getPrecedence tokens curToken")
    case False
    with res have "c = curToken"
      by (auto simp: parse_while.simps[of tokens precedence left curToken])
    with False show ?thesis by simp
  next
    case True
    define c1 where "c1 = (if tok_type (tokens ! curToken) \<notin> set implicitMultiplications
        then curToken + 1 else curToken)"
    from res True obtain f where f: "infixFunctions (tok_type (tokens ! curToken)) = Some f"
      by (auto simp: parse_while.simps[of tokens precedence left curToken] Let_def
          split: option.splits)
    from res True f obtain l c2 where
      h: "(case f of
             parseInfixExpression_f \<Rightarrow> parseInfixExpression tokens left (tokens ! curToken) c1
           | parseImplicitMultiplication_f \<Rightarrow> parseImplicitMultiplication tokens left c1)
          = Inr (l, c2)"
      and w: "parse_while tokens precedence l c2 = Inr (n, c)"
      unfolding c1_def
      by (auto simp: parse_while.simps[of tokens precedence left curToken] Let_def
          split: sum.splits)
    show ?thesis
      by (rule "2.hyps"(3)[OF True refl c1_def f h refl w])
  qed
qed simp_all

text \<open>
  Claim C3. Prefix minus parses its operand at base precedence. For every token sequence
  \<open>E\<close>, parsing a \<^verbatim>\<open>minus\<close> token followed by \<open>E\<close> gives what parsing \<open>E\<close> gives,
  wrapped in a \<open>PrefixExpression\<close>: the same error when \<open>E\<close> does not parse, and
  \<open>PrefixExpression - T\<close> when \<open>E\<close> parses to \<open>T\<close>. In particular \<^verbatim>\<open>-3+4\<close> parses
  to \<open>PrefixExpression - (3 + 4)\<close>, which evaluates to \<open>-7\<close> under every binding.
\<close>

theorem prefix_minus_base_precedence:
  "(\<forall>v E. parse (Token T_minus (VStr v) # E) =
        (case parse E of
           Inl e \<Rightarrow> Inl e
         | Inr operand \<Rightarrow> Inr (PrefixExpression v operand)))
   \<and> parse_expression ''-3+4'' =
        Inr (PrefixExpression ''-''
              (InfixExpression (NumberLiteral (PyInt 3)) ''+'' (NumberLiteral (PyInt 4))))
   \<and> (\<forall>v. evaluate (PrefixExpression ''-''
              (InfixExpression (NumberLiteral (PyInt 3)) ''+'' (NumberLiteral (PyInt 4)))) v
            = Inr (PyInt (- 7)))"
proof -
  have general: "parse (Token T_minus (VStr v) # E) =
        (case parse E of
           Inl e \<Rightarrow> Inl e
         | Inr operand \<Rightarrow> Inr (PrefixExpression v operand))" for v E
  proof -
    let ?m = "Token T_minus (VStr v)"
    have start: "parseExpression (?m # E) 0 0 =
        (case parsePrefixExpression (?m # E) ?m (Suc 0) of
           Inl e \<Rightarrow> Inl e
         | Inr (left, c2) \<Rightarrow> parse_while (?m # E) 0 left c2)"
      by (simp add: parseExpression.simps[of "?m # E" 0 0] prefixFunctions_def Let_def)
    have operand: "parsePrefixExpression (?m # E) ?m (Suc 0) =
        (case parseExpression E 0 0 of
           Inl e \<Rightarrow> Inl e
         | Inr (operand, c) \<Rightarrow> Inr (PrefixExpression v operand, Suc c))"
      using parser_shift(1)[of ?m E 0 0]
      by (simp add: parsePrefixExpression.simps[of "?m # E"] shift_cursor_def
          split: sum.splits)
    show ?thesis
    proof (cases "parseExpression E 0 0")
      case (Inl e)
      then show ?thesis
        by (simp add: parse_def start operand)
    next
      case (Inr b)
      obtain operand c where b: "b = (operand, c)" by (cases b)
      from parser_stops(1)[OF Inr[unfolded b]]
      have "\<not> (Suc c < length (?m # E) \<and> 0 < getPrecedence (?m # E) (Suc c))"
        by (simp add: getPrecedence_Cons)
      then have "parse_while (?m # E) 0 (PrefixExpression v operand) (Suc c)
          = Inr (PrefixExpression v operand, Suc c)"
        by (subst parse_while.simps) auto
      with Inr b show ?thesis
        by (simp add: parse_def start operand)
    qed
  qed
  have tree: "parse_expression ''-3+4'' =
        Inr (PrefixExpression ''-''
              (InfixExpression (NumberLiteral (PyInt 3)) ''+'' (NumberLiteral (PyInt 4))))"
    by code_simp
  have val: "evaluate (PrefixExpression ''-''
              (InfixExpression (NumberLiteral (PyInt 3)) ''+'' (NumberLiteral (PyInt 4)))) v
            = Inr (PyInt (- 7))" for v
    by (simp add: evaluate_def evaluate_number_def py_add_def py_binop_def)
  have G: "\<forall>v E. parse (Token T_minus (VStr v) # E) =
        (case parse E of
           Inl e \<Rightarrow> Inl e
         | Inr operand \<Rightarrow> Inr (PrefixExpression v operand))"
    using general by blast
  have V: "\<forall>v. evaluate (PrefixExpression ''-''
              (InfixExpression (NumberLiteral (PyInt 3)) ''+'' (NumberLiteral (PyInt 4)))) v
            = Inr (PyInt (- 7))"
    using val by blast
  show ?thesis
    by (rule conjI[OF G conjI[OF tree V]])
qed

end
